theory Spec2Isabelle
  imports Complex_Main "HOL-Library.Sublist"
begin

section \<open>JavaScript strings\<close>

text \<open>
  A JavaScript string is a sequence of UTF-16 code units; \<open>length\<close>, indexing,
  \<open>substring\<close> and \<open>trim\<close> all count code units. A code unit is modelled by its
  numeric value, an integer, and a string as a list of them. \<open>js\<close> reads an
  ASCII literal.
\<close>

type_synonym jsstring = "int list"

definition js :: "string \<Rightarrow> jsstring" where
  "js s = map of_char s"

text \<open>
  The code units that \<open>String.prototype.trim\<close> strips and that the regular expression
  class \<open>\s\<close> matches: the ECMAScript WhiteSpace and LineTerminator code points.
\<close>

definition isWhiteSpace :: "int \<Rightarrow> bool" where
  "isWhiteSpace c \<longleftrightarrow>
     c = 9 \<or> c = 10 \<or> c = 11 \<or> c = 12 \<or> c = 13 \<or> c = 32 \<or> c = 160 \<or> c = 5760 \<or>
     (8192 \<le> c \<and> c \<le> 8202) \<or> c = 8232 \<or> c = 8233 \<or> c = 8239 \<or> c = 8287 \<or>
     c = 12288 \<or> c = 65279"

text \<open>\<open>trimEnd\<close> removes the trailing white space, \<open>trim\<close> the leading one as well.\<close>

fun trimEnd :: "jsstring \<Rightarrow> jsstring" where
  "trimEnd [] = []"
| "trimEnd (c # cs) =
     (case trimEnd cs of
        [] \<Rightarrow> if isWhiteSpace c then [] else [c]
      | r # rs \<Rightarrow> c # r # rs)"

definition trim :: "jsstring \<Rightarrow> jsstring" where
  "trim s = trimEnd (dropWhile isWhiteSpace s)"

text \<open>
  \<open>s.substring(a, b)\<close>: both indices are clamped to \<open>[0, length]\<close> and swapped when
  \<open>a > b\<close>. \<open>s.substring(a)\<close> runs to the end of the string.
\<close>

definition substring :: "jsstring \<Rightarrow> int \<Rightarrow> int \<Rightarrow> jsstring" where
  "substring s a b =
     (let n = int (length s);
          a' = min (max a 0) n;
          b' = min (max b 0) n;
          lo = min a' b';
          hi = max a' b'
      in take (nat (hi - lo)) (drop (nat lo) s))"

definition substringFrom :: "jsstring \<Rightarrow> int \<Rightarrow> jsstring" where
  "substringFrom s a = substring s a (int (length s))"

text \<open>
  \<open>s.lastIndexOf(p)\<close> for a non-empty pattern: the greatest index at which \<open>p\<close>
  occurs in \<open>s\<close>, or \<open>-1\<close>.
\<close>

definition occursAt :: "jsstring \<Rightarrow> jsstring \<Rightarrow> nat \<Rightarrow> bool" where
  "occursAt s p i \<longleftrightarrow> take (length p) (drop i s) = p"

definition lastIndexOf :: "jsstring \<Rightarrow> jsstring \<Rightarrow> int" where
  "lastIndexOf s p =
     (case filter (occursAt s p) (rev [0..<Suc (length s - length p)]) of
        [] \<Rightarrow> -1
      | i # _ \<Rightarrow> int i)"

section \<open>Segment utilities\<close>

text \<open>
  Numbers that hold times are modelled as reals, numbers that hold character counts and
  identifiers as integers.
\<close>

record RawSegment =
  segId :: int
  startTime :: real
  endTime :: real
  segText :: jsstring
  confidence :: "real option"

record SplitOptions =
  maxCharsPerLine :: "int option"
  maxLines :: "int option"
  minSegmentDuration :: "real option"

record ResolvedOptions =
  optMaxCharsPerLine :: int
  optMaxLines :: int
  optMinSegmentDuration :: real

definition DEFAULT_OPTIONS :: ResolvedOptions where
  "DEFAULT_OPTIONS =
     \<lparr>optMaxCharsPerLine = 42, optMaxLines = 2, optMinSegmentDuration = 1\<rparr>"

text \<open>The object spread \<open>{ ...DEFAULT_OPTIONS, ...options }\<close>.\<close>

definition mergeOptions :: "SplitOptions \<Rightarrow> ResolvedOptions" where
  "mergeOptions options =
     \<lparr>optMaxCharsPerLine =
        (case maxCharsPerLine options of None \<Rightarrow> optMaxCharsPerLine DEFAULT_OPTIONS | Some v \<Rightarrow> v),
      optMaxLines =
        (case maxLines options of None \<Rightarrow> optMaxLines DEFAULT_OPTIONS | Some v \<Rightarrow> v),
      optMinSegmentDuration =
        (case minSegmentDuration options of
           None \<Rightarrow> optMinSegmentDuration DEFAULT_OPTIONS | Some v \<Rightarrow> v)\<rparr>"

subsection \<open>Finding a split point\<close>

text \<open>
  One pass of \<open>for (const end of ...)\<close> in \<open>findBestSplitPoint\<close>: the first pattern
  whose last occurrence passes the threshold test decides.
\<close>

fun scanBreaks :: "jsstring \<Rightarrow> (int \<Rightarrow> bool) \<Rightarrow> jsstring list \<Rightarrow> int option" where
  "scanBreaks searchRange ok [] = None"
| "scanBreaks searchRange ok (e # es) =
     (let index = lastIndexOf searchRange e
      in if ok index then Some (index + int (length e) - 1)
         else scanBreaks searchRange ok es)"

definition sentenceEnds :: "jsstring list" where
  "sentenceEnds = [[46, 32], [33, 32], [63, 32], [46, 10], [33, 10], [63, 10]]"

definition clauseBreaks :: "jsstring list" where
  "clauseBreaks = [[44, 32], [59, 32], [58, 32], [32, 45, 32], [32, 8211, 32]]"

text \<open>
  The thresholds \<open>index > maxChars * 0.3\<close>, \<open>0.4\<close> and \<open>0.5\<close> compare an integer
  with a tenth of an integer; they are written without fractions.
\<close>

definition findBestSplitPoint :: "jsstring \<Rightarrow> int \<Rightarrow> int" where
  "findBestSplitPoint txt maxChars =
     (let searchRange = substring txt 0 maxChars
      in case scanBreaks searchRange (\<lambda>index. 10 * index > 3 * maxChars) sentenceEnds of
           Some r \<Rightarrow> r
         | None \<Rightarrow>
           (case scanBreaks searchRange (\<lambda>index. 10 * index > 4 * maxChars) clauseBreaks of
              Some r \<Rightarrow> r
            | None \<Rightarrow>
              (let lastSpace = lastIndexOf searchRange [32]
               in if 2 * lastSpace > maxChars then lastSpace
                  else if lastSpace > 0 then lastSpace
                  else -1)))"

definition isSplitPunctuation :: "int \<Rightarrow> bool" where
  "isSplitPunctuation c \<longleftrightarrow> c = 44 \<or> c = 59 \<or> c = 58 \<or> c = 46 \<or> c = 33 \<or> c = 63"

text \<open>
  The body of the midpoint search loop of \<open>findBalancedSplitPoint\<close>. The state is
  \<open>(bestSplit, bestDistance)\<close>; \<open>None\<close> stands for \<open>Infinity\<close>.
\<close>

definition balancedStep ::
  "jsstring \<Rightarrow> int \<Rightarrow> int \<times> int option \<Rightarrow> int \<Rightarrow> int \<times> int option" where
  "balancedStep txt targetSplit st i =
     (if txt ! nat i = 32 then
        (let distance = \<bar>i - targetSplit\<bar>;
             isPunctuation = (i > 0 \<and> isSplitPunctuation (txt ! nat (i - 1)));
             adjustedDistance = (if isPunctuation then distance - 5 else distance)
         in if (case snd st of None \<Rightarrow> True | Some bestDistance \<Rightarrow> adjustedDistance < bestDistance)
            then (i, Some adjustedDistance)
            else st)
      else st)"

definition findBalancedSplitPoint :: "jsstring \<Rightarrow> int \<Rightarrow> int" where
  "findBalancedSplitPoint txt maxChars =
     (let len = int (length txt)
      in if len \<le> maxChars * 2 then
           (let targetSplit = len div 2;
                searchRange = min 20 (len div 4);
                bestSplit = fst (foldl (balancedStep txt targetSplit) (-1, None)
                                   [max 0 (targetSplit - searchRange) ..
                                    min (len - 1) (targetSplit + searchRange)])
            in if bestSplit > 0 then bestSplit else findBestSplitPoint txt maxChars)
         else findBestSplitPoint txt maxChars)"

subsection \<open>Splitting text into chunks\<close>

text \<open>
  The \<open>while\<close> loop of \<open>splitTextIntoChunks\<close>. It need not terminate (it does not
  when \<open>maxChars \<le> 0\<close>), so the loop is a partial function: \<open>None\<close> means that the
  loop runs forever.
\<close>

partial_function (option) chunkLoop :: "int \<Rightarrow> jsstring list \<Rightarrow> jsstring \<Rightarrow> jsstring list option" where
  "chunkLoop maxChars chunks remaining =
     (if int (length remaining) > maxChars then
        (let found = findBalancedSplitPoint remaining maxChars;
             splitIndex = (if found \<le> 0 then maxChars else found);
             chunk = trim (substring remaining 0 splitIndex)
         in chunkLoop maxChars (chunks @ [chunk]) (trim (substringFrom remaining splitIndex)))
      else Some (if length remaining > 0 then chunks @ [remaining] else chunks))"

declare chunkLoop.simps [code]

definition splitTextIntoChunks :: "jsstring \<Rightarrow> int \<Rightarrow> jsstring list option" where
  "splitTextIntoChunks txt maxChars = chunkLoop maxChars [] (trim txt)"

subsection \<open>Timing the chunks\<close>

text \<open>
  The \<open>for\<close> loop of \<open>splitSegment\<close>: \<open>i\<close> is the loop counter, \<open>currentTime\<close> the
  running start time, \<open>n\<close> the number of chunks.
\<close>

fun timeChunks ::
  "RawSegment \<Rightarrow> real \<Rightarrow> real \<Rightarrow> nat \<Rightarrow> nat \<Rightarrow> real \<Rightarrow> jsstring list \<Rightarrow> RawSegment list" where
  "timeChunks segment minDur charsPerSecond n i currentTime [] = []"
| "timeChunks segment minDur charsPerSecond n i currentTime (chunk # rest) =
     (let chunkDuration = max minDur (real (length chunk) / charsPerSecond);
          endT = (if Suc i = n then endTime segment
                  else min (currentTime + chunkDuration) (endTime segment))
      in \<lparr>segId = segId segment * 1000 + int i,
          startTime = currentTime,
          endTime = endT,
          segText = chunk,
          confidence = confidence segment\<rparr>
         # timeChunks segment minDur charsPerSecond n (Suc i) endT rest)"

definition splitSegment :: "RawSegment \<Rightarrow> SplitOptions \<Rightarrow> RawSegment list option" where
  "splitSegment segment options =
     (let opts = mergeOptions options;
          maxChars = optMaxCharsPerLine opts * optMaxLines opts;
          txt = trim (segText segment)
      in if int (length txt) \<le> maxChars then Some [segment\<lparr>segText := txt\<rparr>]
         else
           (let duration = endTime segment - startTime segment;
                charsPerSecond = (if duration > 0 then real (length txt) / duration else 15)
            in case splitTextIntoChunks txt maxChars of
                 None \<Rightarrow> None
               | Some chunks \<Rightarrow>
                   Some (timeChunks segment (optMinSegmentDuration opts) charsPerSecond
                           (length chunks) 0 (startTime segment) chunks)))"

subsection \<open>Line balancing\<close>

definition isBreakPunctuation :: "int \<Rightarrow> bool" where
  "isBreakPunctuation c \<longleftrightarrow>
     c = 44 \<or> c = 59 \<or> c = 58 \<or> c = 46 \<or> c = 33 \<or> c = 63 \<or> c = 8211 \<or> c = 45"

text \<open>
  The body of the search loop of \<open>formatSubtitleText\<close>. The state is
  \<open>(bestSplit, bestScore)\<close>; \<open>None\<close> stands for \<open>Infinity\<close>.
\<close>

definition formatStep ::
  "jsstring \<Rightarrow> int \<Rightarrow> int \<times> int option \<Rightarrow> int \<Rightarrow> int \<times> int option" where
  "formatStep trimmed maxCharsPerLine' st i =
     (if trimmed ! nat i = 32 then
        (let line1Len = i;
             line2Len = int (length trimmed) - i - 1
         in if line1Len > maxCharsPerLine' \<or> line2Len > maxCharsPerLine' then st
            else
              (let imbalance = \<bar>line1Len - line2Len\<bar>;
                   prevChar = trimmed ! nat (i - 1);
                   punctuationBonus = (if isBreakPunctuation prevChar then -10 else 0);
                   score = imbalance + punctuationBonus
               in if (case snd st of None \<Rightarrow> True | Some bestScore \<Rightarrow> score < bestScore)
                  then (i, Some score)
                  else st))
      else st)"

definition formatSearch :: "jsstring \<Rightarrow> int \<Rightarrow> int" where
  "formatSearch trimmed maxCharsPerLine' =
     (let len = int (length trimmed);
          targetSplit = len div 2;
          searchRange = min 25 (len div 3)
      in fst (foldl (formatStep trimmed maxCharsPerLine') (-1, None)
                [max 10 (targetSplit - searchRange) ..
                 min (len - 10) (targetSplit + searchRange)]))"

definition formatSubtitleText :: "jsstring \<Rightarrow> int \<Rightarrow> jsstring" where
  "formatSubtitleText txt maxCharsPerLine' =
     (let trimmed = trim txt
      in if int (length trimmed) \<le> maxCharsPerLine' then trimmed
         else
           (let bestSplit = formatSearch trimmed maxCharsPerLine'
            in if bestSplit > 0 then
                 trim (substring trimmed 0 bestSplit) @ [10]
                   @ trim (substringFrom trimmed (bestSplit + 1))
               else trimmed))"

text \<open>\<open>text.replace(/\n/g, ' ')\<close> and \<open>.replace(/\s+/g, ' ')\<close>.\<close>

definition replaceNewlines :: "jsstring \<Rightarrow> jsstring" where
  "replaceNewlines s = map (\<lambda>c. if c = 10 then 32 else c) s"

function collapseWhitespace :: "jsstring \<Rightarrow> jsstring" where
  "collapseWhitespace [] = []"
| "collapseWhitespace (c # cs) =
     (if isWhiteSpace c then 32 # collapseWhitespace (dropWhile isWhiteSpace cs)
      else c # collapseWhitespace cs)"
  by pat_completeness auto
termination
proof (relation "measure length")
  fix c :: int and cs :: jsstring
  have "length (dropWhile isWhiteSpace cs) \<le> length cs"
    by (rule length_dropWhile_le)
  then show "(dropWhile isWhiteSpace cs, c # cs) \<in> measure length"
    by simp
qed auto

definition balanceSegmentText :: "jsstring \<Rightarrow> int \<Rightarrow> jsstring" where
  "balanceSegmentText txt maxCharsPerLine' =
     (let cleaned = trim (collapseWhitespace (replaceNewlines txt))
      in formatSubtitleText cleaned maxCharsPerLine')"

section \<open>Subtitle export\<close>

subsection \<open>SRT timestamps\<close>

text \<open>
  The JavaScript remainder \<open>x % y\<close> on numbers: the quotient is truncated toward zero,
  so the result has the sign of the dividend.
\<close>

definition jsTrunc :: "real \<Rightarrow> int" where
  "jsTrunc x = (if 0 \<le> x then \<lfloor>x\<rfloor> else \<lceil>x\<rceil>)"

definition jsRem :: "real \<Rightarrow> real \<Rightarrow> real" where
  "jsRem x y = x - y * of_int (jsTrunc (x / y))"

text \<open>\<open>Number.prototype.toString()\<close> on an integer value, in decimal.\<close>

fun digitsOf :: "nat \<Rightarrow> jsstring" where
  "digitsOf n = (if n < 10 then [48 + int n] else digitsOf (n div 10) @ [48 + int (n mod 10)])"

declare digitsOf.simps [simp del]

definition intToString :: "int \<Rightarrow> jsstring" where
  "intToString n = (if n < 0 then 45 # digitsOf (nat (- n)) else digitsOf (nat n))"

text \<open>\<open>s.padStart(n, c)\<close> with a one-character pad string.\<close>

definition padStart :: "jsstring \<Rightarrow> nat \<Rightarrow> int \<Rightarrow> jsstring" where
  "padStart s n c = replicate (n - length s) c @ s"

definition formatSRTTime :: "real \<Rightarrow> jsstring" where
  "formatSRTTime seconds =
     (let h = \<lfloor>seconds / 3600\<rfloor>;
          m = \<lfloor>jsRem seconds 3600 / 60\<rfloor>;
          s = \<lfloor>jsRem seconds 60\<rfloor>;
          ms = \<lfloor>jsRem seconds 1 * 1000\<rfloor>
      in padStart (intToString h) 2 48 @ [58] @ padStart (intToString m) 2 48 @ [58]
           @ padStart (intToString s) 2 48 @ [44] @ padStart (intToString ms) 3 48)"

record TranscriptionSegment =
  StartTime :: real
  EndTime :: real
  Text :: jsstring

definition srtCue :: "nat \<Rightarrow> TranscriptionSegment \<Rightarrow> jsstring" where
  "srtCue index segment =
     (let start = formatSRTTime (StartTime segment);
          end' = formatSRTTime (EndTime segment)
      in intToString (int index + 1) @ [10] @ start @ js '' --> '' @ end' @ [10]
           @ trim (Text segment) @ [10])"

fun joinLines :: "jsstring list \<Rightarrow> jsstring" where
  "joinLines [] = []"
| "joinLines [x] = x"
| "joinLines (x # y # ys) = x @ [10] @ joinLines (y # ys)"

definition generateSRT :: "TranscriptionSegment list \<Rightarrow> jsstring" where
  "generateSRT segments = joinLines (map (\<lambda>(index, segment). srtCue index segment)
                                        (enumerate 0 segments))"








subsection \<open>ASS colours\<close>

text \<open>\<open>hexColor.replace('#', '')\<close>: a string pattern replaces its first occurrence only.\<close>

fun removeFirst :: "int \<Rightarrow> jsstring \<Rightarrow> jsstring" where
  "removeFirst c [] = []"
| "removeFirst c (x # xs) = (if x = c then xs else x # removeFirst c xs)"

text \<open>
  \<open>toUpperCase\<close> on ASCII code units: the letters \<open>a\<close> to \<open>z\<close> become \<open>A\<close> to
  \<open>Z\<close>, every other ASCII code unit is kept.
\<close>

definition toUpperCase :: "jsstring \<Rightarrow> jsstring" where
  "toUpperCase s = map (\<lambda>c. if 97 \<le> c \<and> c \<le> 122 then c - 32 else c) s"

text \<open>\<open>Number.prototype.toString(16)\<close> on an integer value.\<close>

definition hexDigit :: "nat \<Rightarrow> int" where
  "hexDigit d = (if d < 10 then 48 + int d else 87 + int d)"

fun hexDigitsOf :: "nat \<Rightarrow> jsstring" where
  "hexDigitsOf n =
     (if n < 16 then [hexDigit n] else hexDigitsOf (n div 16) @ [hexDigit (n mod 16)])"

declare hexDigitsOf.simps [simp del]

definition intToString16 :: "int \<Rightarrow> jsstring" where
  "intToString16 n = (if n < 0 then 45 # hexDigitsOf (nat (- n)) else hexDigitsOf (nat n))"

text \<open>
  Double-precision arithmetic for \<open>Math.round((100 - opacity) * 2.55)\<close> with an integer
  \<open>opacity\<close>. The literal \<open>2.55\<close> denotes the double \<open>5742089524897382 / 2^51\<close>. The
  difference \<open>100 - opacity\<close> is an integer \<open>k\<close> and exact. The product is the exact
  product \<open>k * 5742089524897382 / 2^51\<close> rounded to 53 significant bits, ties to even;
  \<open>roundTo53\<close> rounds the numerator. \<open>Math.round\<close> is exact: the nearest integer, ties
  upwards.
\<close>

function bitLength :: "int \<Rightarrow> nat" where
  "bitLength n = (if n \<le> 0 then 0 else Suc (bitLength (n div 2)))"
  by pat_completeness auto
termination
  by (relation "measure nat") auto

declare bitLength.simps [simp del]

definition roundTo53 :: "int \<Rightarrow> int" where
  "roundTo53 n =
     (if bitLength n \<le> 53 then n
      else
        (let s = bitLength n - 53;
             q = n div 2 ^ s;
             r = n mod 2 ^ s;
             half = 2 ^ (s - 1)
         in (if r > half \<or> (r = half \<and> odd q) then q + 1 else q) * 2 ^ s))"

definition double_2_55 :: int where
  "double_2_55 = 5742089524897382"

definition timesDouble_2_55 :: "int \<Rightarrow> int" where
  "timesDouble_2_55 k = sgn k * roundTo53 (\<bar>k\<bar> * double_2_55)"

definition mathRound51 :: "int \<Rightarrow> int" where
  "mathRound51 p = (p + 2 ^ 50) div 2 ^ 51"

definition alphaOf :: "int \<Rightarrow> int" where
  "alphaOf opacity = mathRound51 (timesDouble_2_55 (100 - opacity))"

definition hexToASS :: "jsstring \<Rightarrow> int \<Rightarrow> jsstring" where
  "hexToASS hexColor opacity =
     (let hex = toUpperCase (removeFirst 35 hexColor);
          r = substring hex 0 2;
          g = substring hex 2 4;
          b = substring hex 4 6;
          alpha = alphaOf opacity;
          alphaHex = toUpperCase (padStart (intToString16 alpha) 2 48)
      in js ''&H'' @ alphaHex @ b @ g @ r)"

text \<open>Hexadecimal digits, and the upper-case digit of a value below 16.\<close>

definition isHexDigit :: "int \<Rightarrow> bool" where
  "isHexDigit c \<longleftrightarrow> (48 \<le> c \<and> c \<le> 57) \<or> (65 \<le> c \<and> c \<le> 70) \<or> (97 \<le> c \<and> c \<le> 102)"

definition upperHexDigit :: "int \<Rightarrow> int" where
  "upperHexDigit d = (if d < 10 then 48 + d else 55 + d)"

text \<open>
  The exact product \<open>(100 - opacity) * 2.55\<close>, that is \<open>(100 - opacity) * 255 / 100\<close>,
  rounded to the nearest integer, ties upwards.
\<close>

definition exactAlpha :: "int \<Rightarrow> int" where
  "exactAlpha opacity = ((100 - opacity) * 255 + 50) div 100"


section \<open>Media processing\<close>

text \<open>
  The file system is the set of paths of existing files. A thrown JavaScript value is an
  \<open>Error\<close> with its message, or some other value. A function that can throw returns
  \<open>Inl\<close> of the thrown value or \<open>Inr\<close> of its result, together with the new state.
\<close>

type_synonym path = string

datatype thrown = JsError string | NonError

datatype toolRun = Succeeds | Fails bool

datatype step =
    ProgressUpdate nat
  | Probe
  | AudioExtract
  | PreviewTranscode
  | ThumbnailExtract
  | UploadAudio
  | UploadPreview
  | UploadThumbnail
  | PersistReady
  | PersistError
  | CleanupFile path

text \<open>
  Everything outside the process that a job depends on: the scratch directory, which
  files \<open>unlinkSync\<close> can remove and what it throws otherwise, what \<open>ffprobe\<close> reports
  in \<open>isVideoFile\<close> (\<open>None\<close> when it fails), the random output path and the run of each
  codec invocation (\<open>Fails partial\<close>: the \<open>try\<close> block throws, leaving a partial output
  file or not), whether the \<open>getMediaInfo\<close> call of \<open>extractThumbnail\<close> succeeds, and the
  outcome of each upload and of each record update. Sizes and durations of the files
  play no part in the control flow and are left out.
\<close>

record world =
  TEMP_DIR :: path
  removable :: "path \<Rightarrow> bool"
  unlinkFailure :: thrown
  probeVideo :: "bool option"
  audioPath :: path
  audioRun :: toolRun
  previewPath :: path
  previewRun :: toolRun
  thumbnailInfo :: bool
  thumbnailPath :: path
  thumbnailRun :: toolRun
  uploadAudio :: "thrown + string"
  uploadPreview :: "thrown + string"
  uploadThumbnail :: "thrown + string"
  progressUpdate :: "nat \<Rightarrow> bool"
  readyUpdate :: "thrown option"
  errorUpdate :: bool

record fileRecord =
  Status :: string
  ProcessingProgress :: nat
  PreviewUrl :: "string option"
  ThumbnailUrl :: "string option"
  AudioUrl :: string
  StorageUrl :: string
  ProcessingError :: "string option"

text \<open>
  The state of one job: the files on disk, the \<open>tempFiles\<close> array, the file record in
  the database, and the steps taken so far, in order.
\<close>

record job =
  files :: "path set"
  tempFiles :: "path list"
  dbRecord :: fileRecord
  steps :: "step list"

subsection \<open>Temp files\<close>

definition existsSync :: "path set \<Rightarrow> path \<Rightarrow> bool" where
  "existsSync fs p \<longleftrightarrow> p \<in> fs"

definition startsWith :: "string \<Rightarrow> string \<Rightarrow> bool" where
  "startsWith s p \<longleftrightarrow> prefix p s"

definition unlinkSync :: "world \<Rightarrow> path set \<Rightarrow> path \<Rightarrow> thrown + path set" where
  "unlinkSync w fs p = (if p \<in> fs \<and> removable w p then Inr (fs - {p}) else Inl (unlinkFailure w))"

text \<open>The \<open>catch\<close> of \<open>cleanupTempFile\<close> logs the error and returns.\<close>

definition cleanupTempFile :: "world \<Rightarrow> path set \<Rightarrow> path \<Rightarrow> thrown + path set" where
  "cleanupTempFile w fs filePath =
     (if existsSync fs filePath \<and> startsWith filePath (TEMP_DIR w) then
        (case unlinkSync w fs filePath of
           Inr fs' \<Rightarrow> Inr fs'
         | Inl error \<Rightarrow> Inr fs)
      else Inr fs)"

subsection \<open>The transcoder\<close>

text \<open>
  The shape shared by \<open>convertTo480p\<close>, \<open>extractAudioForTranscription\<close> and the
  \<open>try\<close> block of \<open>extractThumbnail\<close>: run the codec; on failure remove the output
  file if it exists and throw the operation's own error.
\<close>

definition runTool :: "world \<Rightarrow> toolRun \<Rightarrow> path \<Rightarrow> string \<Rightarrow> job \<Rightarrow> (thrown + path) \<times> job" where
  "runTool w run outputPath failureMessage j =
     (case run of
        Succeeds \<Rightarrow> (Inr outputPath, j\<lparr>files := insert outputPath (files j)\<rparr>)
      | Fails partial \<Rightarrow>
          (let fs1 = (if partial then insert outputPath (files j) else files j)
           in if existsSync fs1 outputPath then
                (case unlinkSync w fs1 outputPath of
                   Inl e \<Rightarrow> (Inl e, j\<lparr>files := fs1\<rparr>)
                 | Inr fs2 \<Rightarrow> (Inl (JsError failureMessage), j\<lparr>files := fs2\<rparr>))
              else (Inl (JsError failureMessage), j\<lparr>files := fs1\<rparr>)))"

definition isVideoFile :: "world \<Rightarrow> job \<Rightarrow> bool \<times> job" where
  "isVideoFile w j =
     ((case probeVideo w of Some isVideo \<Rightarrow> isVideo | None \<Rightarrow> False),
      j\<lparr>steps := steps j @ [Probe]\<rparr>)"

definition extractAudioForTranscription :: "world \<Rightarrow> job \<Rightarrow> (thrown + path) \<times> job" where
  "extractAudioForTranscription w j =
     runTool w (audioRun w) (audioPath w) ''Failed to extract audio''
       (j\<lparr>steps := steps j @ [AudioExtract]\<rparr>)"

definition convertTo480p :: "world \<Rightarrow> job \<Rightarrow> (thrown + path) \<times> job" where
  "convertTo480p w j =
     runTool w (previewRun w) (previewPath w) ''Failed to convert to 480p''
       (j\<lparr>steps := steps j @ [PreviewTranscode]\<rparr>)"

definition extractThumbnail :: "world \<Rightarrow> job \<Rightarrow> (thrown + path) \<times> job" where
  "extractThumbnail w j =
     (let j1 = j\<lparr>steps := steps j @ [ThumbnailExtract]\<rparr>
      in if thumbnailInfo w then
           runTool w (thumbnailRun w) (thumbnailPath w) ''Failed to extract thumbnail'' j1
         else (Inl (JsError ''Failed to get media info''), j1))"

record mediaResult =
  isVideo :: bool
  resultPreviewPath :: "path option"
  resultThumbnailPath :: "path option"
  resultAudioPath :: path

definition processMediaFile :: "world \<Rightarrow> job \<Rightarrow> (thrown + mediaResult) \<times> job" where
  "processMediaFile w j =
     (case isVideoFile w j of
        (video, j1) \<Rightarrow>
        (case extractAudioForTranscription w j1 of
           (Inl e, j2) \<Rightarrow> (Inl e, j2)
         | (Inr audio, j2) \<Rightarrow>
             if video then
               (case convertTo480p w j2 of
                  (Inl e, j3) \<Rightarrow> (Inl e, j3)
                | (Inr preview, j3) \<Rightarrow>
                    (case extractThumbnail w j3 of
                       (Inl err, j4) \<Rightarrow>
                         (Inr \<lparr>isVideo = True, resultPreviewPath = Some preview,
                               resultThumbnailPath = None, resultAudioPath = audio\<rparr>, j4)
                     | (Inr thumbnail, j4) \<Rightarrow>
                         (Inr \<lparr>isVideo = True, resultPreviewPath = Some preview,
                               resultThumbnailPath = Some thumbnail, resultAudioPath = audio\<rparr>, j4)))
             else
               (Inr \<lparr>isVideo = False, resultPreviewPath = None,
                     resultThumbnailPath = None, resultAudioPath = audio\<rparr>, j2)))"

subsection \<open>The background job\<close>

text \<open>\<open>updateFileProgress\<close> logs a failed update and returns.\<close>

definition updateFileProgress :: "world \<Rightarrow> nat \<Rightarrow> string \<Rightarrow> job \<Rightarrow> job" where
  "updateFileProgress w progress status j =
     (let j1 = j\<lparr>steps := steps j @ [ProgressUpdate progress]\<rparr>
      in if progressUpdate w progress then
           j1\<lparr>dbRecord := (dbRecord j1)\<lparr>ProcessingProgress := progress, Status := status\<rparr>\<rparr>
         else j1)"

text \<open>One \<open>s3.uploadFromPath\<close> call, made only when \<open>wanted\<close>.\<close>

definition uploadIf ::
  "bool \<Rightarrow> thrown + string \<Rightarrow> step \<Rightarrow> job \<Rightarrow> (thrown + string option) \<times> job" where
  "uploadIf wanted upload s j =
     (if wanted then
        (case upload of
           Inl e \<Rightarrow> (Inl e, j\<lparr>steps := steps j @ [s]\<rparr>)
         | Inr publicUrl \<Rightarrow> (Inr (Some publicUrl), j\<lparr>steps := steps j @ [s]\<rparr>))
      else (Inr None, j))"

text \<open>\<open>url || null\<close>: an undefined or empty string gives \<open>null\<close>.\<close>

definition orNull :: "string option \<Rightarrow> string option" where
  "orNull url = (case url of Some u \<Rightarrow> if u = [] then None else Some u | None \<Rightarrow> None)"

text \<open>
  The \<open>try\<close> block of \<open>processInBackground\<close>, in two parts: \<open>persistResults\<close> is
  what follows the call of \<open>processMediaFile\<close> once it has returned \<open>result\<close>.
\<close>

definition persistResults ::
  "world \<Rightarrow> bool \<Rightarrow> mediaResult \<Rightarrow> job \<Rightarrow> (thrown + unit) \<times> job" where
  "persistResults w isVideoMime result j2 =
     (let j3 = j2\<lparr>tempFiles := tempFiles j2
                    @ (case resultPreviewPath result of Some p \<Rightarrow> [p] | None \<Rightarrow> [])
                    @ (case resultThumbnailPath result of Some p \<Rightarrow> [p] | None \<Rightarrow> [])
                    @ [resultAudioPath result]\<rparr>
      in case uploadIf True (uploadAudio w) UploadAudio
                (updateFileProgress w 50 ''processing'' j3) of
           (Inl e, j5) \<Rightarrow> (Inl e, j5)
         | (Inr audioUpload, j5) \<Rightarrow>
           (case uploadIf (isVideoMime \<and> resultPreviewPath result \<noteq> None)
                   (uploadPreview w) UploadPreview
                   (updateFileProgress w 70 ''processing'' j5) of
              (Inl e, j7) \<Rightarrow> (Inl e, j7)
            | (Inr previewUrl, j7) \<Rightarrow>
              (case uploadIf (isVideoMime \<and> resultThumbnailPath result \<noteq> None)
                      (uploadThumbnail w) UploadThumbnail j7 of
                 (Inl e, j8) \<Rightarrow> (Inl e, j8)
               | (Inr thumbnailUrl, j8) \<Rightarrow>
                 (let j9 = updateFileProgress w 90 ''processing'' j8;
                      j10 = j9\<lparr>steps := steps j9 @ [PersistReady]\<rparr>;
                      audioUrl = (case audioUpload of Some u \<Rightarrow> u | None \<Rightarrow> [])
                  in case readyUpdate w of
                       Some e \<Rightarrow> (Inl e, j10)
                     | None \<Rightarrow>
                         (Inr (),
                          j10\<lparr>dbRecord := (dbRecord j10)
                                 \<lparr>PreviewUrl := orNull previewUrl,
                                    ThumbnailUrl := orNull thumbnailUrl,
                                    AudioUrl := audioUrl,
                                    StorageUrl := (case orNull previewUrl of
                                                     Some u \<Rightarrow> u | None \<Rightarrow> audioUrl),
                                    Status := ''ready'',
                                    ProcessingProgress := 100\<rparr>\<rparr>)))))"

definition processSteps :: "world \<Rightarrow> bool \<Rightarrow> job \<Rightarrow> (thrown + unit) \<times> job" where
  "processSteps w isVideoMime j =
     (case processMediaFile w (updateFileProgress w 20 ''processing'' j) of
        (Inl e, j2) \<Rightarrow> (Inl e, j2)
      | (Inr result, j2) \<Rightarrow> persistResults w isVideoMime result j2)"

text \<open>The \<open>catch\<close> block: write the error status; a failure of that write is logged.\<close>

definition thrownMessage :: "thrown \<Rightarrow> string" where
  "thrownMessage e = (case e of JsError message \<Rightarrow> message | NonError \<Rightarrow> ''Processing failed'')"

definition recordFailure :: "world \<Rightarrow> thrown \<Rightarrow> job \<Rightarrow> job" where
  "recordFailure w e j =
     (let j1 = j\<lparr>steps := steps j @ [PersistError]\<rparr>
      in if errorUpdate w then
           j1\<lparr>dbRecord := (dbRecord j1)
                  \<lparr>Status := ''error'', ProcessingError := Some (thrownMessage e)\<rparr>\<rparr>
         else j1)"

text \<open>The \<open>finally\<close> block: \<open>cleanupTempFile\<close> on every element of \<open>tempFiles\<close>.\<close>

fun cleanupAll :: "world \<Rightarrow> path list \<Rightarrow> job \<Rightarrow> job" where
  "cleanupAll w [] j = j"
| "cleanupAll w (tempFile # rest) j =
     (case cleanupTempFile w (files j) tempFile of
        Inr fs \<Rightarrow>
          cleanupAll w rest (j\<lparr>files := fs, steps := steps j @ [CleanupFile tempFile]\<rparr>)
      | Inl e \<Rightarrow> j\<lparr>steps := steps j @ [CleanupFile tempFile]\<rparr>)"

definition processInBackground :: "world \<Rightarrow> bool \<Rightarrow> job \<Rightarrow> job" where
  "processInBackground w isVideoMime j =
     (let j1 = (case processSteps w isVideoMime j of
                  (Inr done, j') \<Rightarrow> j'
                | (Inl e, j') \<Rightarrow> recordFailure w e j')
      in cleanupAll w (tempFiles j1) j1)"


subsection \<open>Example worlds\<close>

text \<open>
  The state in which the upload handler starts the job: the uploaded original is on disk
  and recorded, the record is at \<open>processing\<close>, 10 percent.
\<close>

definition startJob :: job where
  "startJob =
     \<lparr>files = {''/tmp/subzcreator/original.mp4''},
        tempFiles = [''/tmp/subzcreator/original.mp4''],
        dbRecord = \<lparr>Status = ''processing'', ProcessingProgress = 10, PreviewUrl = None,
                      ThumbnailUrl = None, AudioUrl = [], StorageUrl = ''https://s3/original'',
                      ProcessingError = None\<rparr>,
        steps = []\<rparr>"

definition allRemovable :: "path \<Rightarrow> bool" where
  "allRemovable p = True"

definition allSucceed :: "nat \<Rightarrow> bool" where
  "allSucceed n = True"

text \<open>A video source for which every step succeeds.\<close>

definition videoWorld :: world where
  "videoWorld =
     \<lparr>TEMP_DIR = ''/tmp/subzcreator'', removable = allRemovable,
        unlinkFailure = JsError ''EPERM: operation not permitted, unlink'',
        probeVideo = Some True,
        audioPath = ''/tmp/subzcreator/a.mp3'', audioRun = Succeeds,
        previewPath = ''/tmp/subzcreator/p-480p.mp4'', previewRun = Succeeds,
        thumbnailInfo = True,
        thumbnailPath = ''/tmp/subzcreator/t-thumb.jpg'', thumbnailRun = Succeeds,
        uploadAudio = Inr ''https://s3/audio'', uploadPreview = Inr ''https://s3/preview'',
        uploadThumbnail = Inr ''https://s3/thumbnail'',
        progressUpdate = allSucceed, readyUpdate = None, errorUpdate = True\<rparr>"

definition pipelineStep :: "step \<Rightarrow> bool" where
  "pipelineStep s \<longleftrightarrow>
     s = Probe \<or> s = AudioExtract \<or> s = PreviewTranscode \<or> s = ThumbnailExtract \<or> s = PersistReady"

definition pipelineSteps :: "job \<Rightarrow> step list" where
  "pipelineSteps j = filter pipelineStep (steps j)"


definition videoSource :: "world \<Rightarrow> bool" where
  "videoSource w \<longleftrightarrow> probeVideo w = Some True"

definition thumbnailMade :: "world \<Rightarrow> bool" where
  "thumbnailMade w \<longleftrightarrow> thumbnailInfo w \<and> thumbnailRun w = Succeeds"

text \<open>A path lies inside a directory when it is the directory, a slash and a remainder.\<close>

definition insideDirectory :: "path \<Rightarrow> path \<Rightarrow> bool" where
  "insideDirectory dir p \<longleftrightarrow> strict_prefix (dir @ ''/'') p"

text \<open>
  The first step of a job whose failure is fatal, if there is one: the steps are taken
  in this order, and a step is only reached when the ones before it succeeded.
\<close>

definition firstFatal :: "world \<Rightarrow> bool \<Rightarrow> step option" where
  "firstFatal w isVideoMime =
     (if audioRun w \<noteq> Succeeds then Some AudioExtract
      else if videoSource w \<and> previewRun w \<noteq> Succeeds then Some PreviewTranscode
      else if isl (uploadAudio w) then Some UploadAudio
      else if isVideoMime \<and> videoSource w \<and> isl (uploadPreview w) then Some UploadPreview
      else if isVideoMime \<and> videoSource w \<and> thumbnailMade w \<and> isl (uploadThumbnail w)
        then Some UploadThumbnail
      else if readyUpdate w \<noteq> None then Some PersistReady
      else None)"

text \<open>
  The steps of \<open>processMediaFile\<close>, and the steps that follow it in the \<open>try\<close> block
  when it returns.
\<close>

definition mediaSteps :: "world \<Rightarrow> step list" where
  "mediaSteps w =
     [Probe, AudioExtract]
     @ (if audioRun w = Succeeds \<and> videoSource w
        then PreviewTranscode # (if previewRun w = Succeeds then [ThumbnailExtract] else [])
        else [])"

definition thumbnailUploadSteps :: "world \<Rightarrow> bool \<Rightarrow> step list" where
  "thumbnailUploadSteps w wanted =
     (if wanted
      then UploadThumbnail
           # (if isl (uploadThumbnail w) then [] else [ProgressUpdate 90, PersistReady])
      else [ProgressUpdate 90, PersistReady])"

definition previewUploadSteps :: "world \<Rightarrow> bool \<Rightarrow> bool \<Rightarrow> step list" where
  "previewUploadSteps w wantPreview wantThumbnail =
     (if wantPreview
      then UploadPreview
           # (if isl (uploadPreview w) then [] else thumbnailUploadSteps w wantThumbnail)
      else thumbnailUploadSteps w wantThumbnail)"

definition persistSteps :: "world \<Rightarrow> bool \<Rightarrow> bool \<Rightarrow> step list" where
  "persistSteps w wantPreview wantThumbnail =
     [ProgressUpdate 50, UploadAudio]
     @ (if isl (uploadAudio w) then []
        else ProgressUpdate 70 # previewUploadSteps w wantPreview wantThumbnail)"

definition laterSteps :: "world \<Rightarrow> bool \<Rightarrow> step list" where
  "laterSteps w isVideoMime =
     (if audioRun w \<noteq> Succeeds \<or> (videoSource w \<and> previewRun w \<noteq> Succeeds) then []
      else persistSteps w (isVideoMime \<and> videoSource w)
             (isVideoMime \<and> videoSource w \<and> thumbnailMade w))"

text \<open>
  What a failing codec call throws, given the files on disk before the call: its own
  error, or, when an output file is on disk (left by the failed run, or there before)
  and cannot be removed, what \<open>unlinkSync\<close> throws.
\<close>

definition codecThrows :: "world \<Rightarrow> toolRun \<Rightarrow> path \<Rightarrow> string \<Rightarrow> path set \<Rightarrow> thrown" where
  "codecThrows w run outputPath failureMessage fs =
     (if (run = Fails True \<or> outputPath \<in> fs) \<and> \<not> removable w outputPath
      then unlinkFailure w else JsError failureMessage)"

text \<open>
  What a fatal step throws in a job started with the files \<open>fs\<close> on disk: the codec
  steps throw as above (the preview transcode runs when the extracted audio is on disk),
  the uploads and the final update throw what the storage or the database client throws.
\<close>

definition throwsAt :: "world \<Rightarrow> path set \<Rightarrow> step \<Rightarrow> thrown \<Rightarrow> bool" where
  "throwsAt w fs s e \<longleftrightarrow>
     (s = AudioExtract
        \<and> e = codecThrows w (audioRun w) (audioPath w) ''Failed to extract audio'' fs)
     \<or> (s = PreviewTranscode
        \<and> e = codecThrows w (previewRun w) (previewPath w) ''Failed to convert to 480p''
                (insert (audioPath w) fs))
     \<or> (s = UploadAudio \<and> uploadAudio w = Inl e)
     \<or> (s = UploadPreview \<and> uploadPreview w = Inl e)
     \<or> (s = UploadThumbnail \<and> uploadThumbnail w = Inl e)
     \<or> (s = PersistReady \<and> readyUpdate w = Some e)"

text \<open>A world in which the preview file, once written, cannot be unlinked.\<close>

definition keepsPreview :: "path \<Rightarrow> bool" where
  "keepsPreview p \<longleftrightarrow> p \<noteq> ''/tmp/subzcreator/p-480p.mp4''"

text \<open>A world in which the uploaded original cannot be unlinked.\<close>

definition keepsOriginal :: "path \<Rightarrow> bool" where
  "keepsOriginal p \<longleftrightarrow> p \<noteq> ''/tmp/subzcreator/original.mp4''"

section \<open>Notions used to state the properties\<close>

subsection \<open>Notions used to state the line-balancing properties\<close>

text \<open>
  A string is single-spaced when every white-space code unit in it is a space that is
  not followed by another white-space code unit.
\<close>

fun singleSpaced :: "jsstring \<Rightarrow> bool" where
  "singleSpaced [] = True"
| "singleSpaced (c # cs) =
     ((isWhiteSpace c \<longrightarrow> c = 32 \<and> (cs \<noteq> [] \<longrightarrow> \<not> isWhiteSpace (hd cs))) \<and> singleSpaced cs)"

definition spacePositions :: "jsstring \<Rightarrow> int list" where
  "spacePositions s = filter (\<lambda>i. s ! nat i = 32) [0 .. int (length s) - 1]"

text \<open>A candidate break position of the search loop of \<open>formatSubtitleText\<close>.\<close>

definition breakCandidate :: "jsstring \<Rightarrow> int \<Rightarrow> int \<Rightarrow> bool" where
  "breakCandidate t m i \<longleftrightarrow>
     10 \<le> i \<and> i \<le> int (length t) - 10 \<and> t ! nat i = 32
     \<and> i \<le> m \<and> int (length t) - i - 1 \<le> m"

text \<open>The first line of \<open>balanceSegmentText\<close>: the cleaned text.\<close>

definition cleanText :: "jsstring \<Rightarrow> jsstring" where
  "cleanText s = trim (collapseWhitespace (replaceNewlines s))"

text \<open>Position \<open>i\<close> is among the first ten or the last ten positions of \<open>s\<close>.\<close>

definition inFirstOrLastTen :: "jsstring \<Rightarrow> int \<Rightarrow> bool" where
  "inFirstOrLastTen s i \<longleftrightarrow> i < 10 \<or> int (length s) - 10 \<le> i"

text \<open>The scenario segment of the specification, with its options.\<close>

definition scenarioSegment :: RawSegment where
  "scenarioSegment =
     \<lparr>segId = 0, startTime = 0, endTime = 4,
        segText = js ''This is a moderately long line of subtitle text that exceeds forty two characters easily'',
        confidence = None\<rparr>"

definition scenarioOptions :: SplitOptions where
  "scenarioOptions = \<lparr>maxCharsPerLine = Some 42, maxLines = Some 2, minSegmentDuration = None\<rparr>"

section \<open>Properties of the string operations\<close>

lemma length_trimEnd_le: "length (trimEnd s) \<le> length s"
  by (induction s) (auto split: list.splits)

lemma length_trim_le: "length (trim s) \<le> length s"
proof -
  have "length (trim s) \<le> length (dropWhile isWhiteSpace s)"
    unfolding trim_def by (rule length_trimEnd_le)
  also have "\<dots> \<le> length s"
    by (rule length_dropWhile_le)
  finally show ?thesis .
qed

lemma trimEnd_Nil_iff: "trimEnd s = [] \<longleftrightarrow> (\<forall>c \<in> set s. isWhiteSpace c)"
  by (induction s) (auto split: list.splits)

lemma trimEnd_id: "s \<noteq> [] \<Longrightarrow> \<not> isWhiteSpace (last s) \<Longrightarrow> trimEnd s = s"
proof (induction s)
  case Nil
  then show ?case by simp
next
  case (Cons c cs)
  show ?case
  proof (cases cs)
    case Nil
    with Cons.prems show ?thesis by simp
  next
    case (Cons d ds)
    with Cons.prems Cons.IH have "trimEnd cs = cs" by simp
    with Cons show ?thesis by simp
  qed
qed

lemma trimEnd_last: "trimEnd s \<noteq> [] \<Longrightarrow> \<not> isWhiteSpace (last (trimEnd s))"
  by (induction s) (auto split: list.splits if_splits)

lemma trimEnd_hd: "trimEnd s \<noteq> [] \<Longrightarrow> hd (trimEnd s) = hd s"
  by (cases s) (auto split: list.splits if_splits)

lemma trimEnd_decomp: "\<exists>t. s = trimEnd s @ t \<and> (\<forall>c \<in> set t. isWhiteSpace c)"
proof (induction s)
  case Nil
  then show ?case by simp
next
  case (Cons c cs)
  then obtain t where t: "cs = trimEnd cs @ t" "\<forall>c \<in> set t. isWhiteSpace c"
    by blast
  show ?case
  proof (cases "trimEnd cs")
    case Nil
    with t have "\<forall>c \<in> set cs. isWhiteSpace c" by (simp add: trimEnd_Nil_iff)
    with Nil show ?thesis by (cases "isWhiteSpace c") auto
  next
    case (Cons r rs)
    with t show ?thesis by (metis append_Cons trimEnd.simps(2) list.simps(5))
  qed
qed

lemma trim_Nil [simp]: "trim [] = []"
  by (simp add: trim_def)

lemma trim_ends:
  assumes "trim s \<noteq> []"
  shows "\<not> isWhiteSpace (hd (trim s))" and "\<not> isWhiteSpace (last (trim s))"
proof -
  let ?d = "dropWhile isWhiteSpace s"
  from assms have ne: "trimEnd ?d \<noteq> []" by (simp add: trim_def)
  then have d: "?d \<noteq> []" by (metis trimEnd.simps(1))
  have "hd (trim s) = hd ?d" unfolding trim_def by (rule trimEnd_hd [OF ne])
  moreover have "\<not> isWhiteSpace (hd ?d)" using d by (rule hd_dropWhile)
  ultimately show "\<not> isWhiteSpace (hd (trim s))" by simp
  show "\<not> isWhiteSpace (last (trim s))"
    unfolding trim_def by (rule trimEnd_last [OF ne])
qed

lemma trim_id:
  assumes "s \<noteq> []" and "\<not> isWhiteSpace (hd s)" and "\<not> isWhiteSpace (last s)"
  shows "trim s = s"
proof -
  from assms(1,2) have "dropWhile isWhiteSpace s = s" by (cases s) auto
  with assms(1,3) show ?thesis by (simp add: trim_def trimEnd_id)
qed

lemma trim_trim: "trim (trim s) = trim s"
proof (cases "trim s = []")
  case True
  then show ?thesis by simp
next
  case False
  with trim_ends [OF False] show ?thesis by (rule_tac trim_id) auto
qed

section \<open>Short segments\<close>

text \<open>
  C3 (as amended). A segment whose text has at most \<open>maxCharsPerLine * maxLines\<close>
  code units comes back as exactly one segment with the same id, start time, end time
  and confidence; its text is the input text with leading and trailing white space
  removed. The segment is returned unchanged whenever its text has no leading or
  trailing white space.
\<close>

theorem splitSegment_short:
  assumes "int (length (segText segment))
             \<le> optMaxCharsPerLine (mergeOptions options) * optMaxLines (mergeOptions options)"
  shows "splitSegment segment options = Some [segment\<lparr>segText := trim (segText segment)\<rparr>]
         \<and> (trim (segText segment) = segText segment
              \<longrightarrow> splitSegment segment options = Some [segment])"
proof -
  have "int (length (trim (segText segment))) \<le> int (length (segText segment))"
    using length_trim_le [of "segText segment"] by simp
  with assms have short:
    "int (length (trim (segText segment)))
       \<le> optMaxCharsPerLine (mergeOptions options) * optMaxLines (mergeOptions options)"
    by linarith
  then have "splitSegment segment options = Some [segment\<lparr>segText := trim (segText segment)\<rparr>]"
    by (simp add: splitSegment_def Let_def)
  then show ?thesis by auto
qed

theorem splitSegment_short_witness:
  "int (length (js ''Hello world'')) \<le> 42 * 2
   \<and> splitSegment
        \<lparr>segId = 3, startTime = 1, endTime = 2, segText = js ''Hello world'',
           confidence = Some 1\<rparr>
        \<lparr>maxCharsPerLine = None, maxLines = None, minSegmentDuration = None\<rparr>
       = Some [\<lparr>segId = 3, startTime = 1, endTime = 2, segText = js ''Hello world'',
                 confidence = Some 1\<rparr>]"
proof -
  have len: "int (length (js ''Hello world'')) \<le> 42 * 2"
    by (simp add: js_def)
  have tr: "trim (js ''Hello world'') = js ''Hello world''"
    by code_simp
  have "int (length (segText \<lparr>segId = 3, startTime = 1, endTime = 2,
            segText = js ''Hello world'', confidence = Some 1\<rparr>))
          \<le> optMaxCharsPerLine (mergeOptions
                \<lparr>maxCharsPerLine = None, maxLines = None, minSegmentDuration = None\<rparr>)
            * optMaxLines (mergeOptions
                \<lparr>maxCharsPerLine = None, maxLines = None, minSegmentDuration = None\<rparr>)"
    by (simp add: js_def mergeOptions_def DEFAULT_OPTIONS_def)
  from splitSegment_short [OF this] tr len show ?thesis
    by simp
qed

text \<open>
  C3 as stated fails: the returned text is trimmed, so a segment whose text starts or
  ends with white space is not returned unchanged.
\<close>

theorem splitSegment_short_counterexample:
  "int (length (js '' Hello world'')) \<le> 42 * 2
   \<and> splitSegment
        \<lparr>segId = 3, startTime = 1, endTime = 2, segText = js '' Hello world'',
           confidence = Some 1\<rparr>
        \<lparr>maxCharsPerLine = None, maxLines = None, minSegmentDuration = None\<rparr>
       \<noteq> Some [\<lparr>segId = 3, startTime = 1, endTime = 2, segText = js '' Hello world'',
                 confidence = Some 1\<rparr>]"
  by code_simp

section \<open>Timing of split segments\<close>







subsection \<open>The chunk loop returns when the budget is positive\<close>






subsection \<open>The chunk loop never returns when the budget is not positive\<close>

lemma lastIndexOf_empty: "p \<noteq> [] \<Longrightarrow> lastIndexOf [] p = -1"
  by (auto simp add: lastIndexOf_def occursAt_def)

lemma findBestSplitPoint_no_budget:
  assumes "maxChars \<le> 0"
  shows "findBestSplitPoint s maxChars \<le> 0"
proof -
  have sr: "substring s 0 maxChars = []"
    using assms by (simp add: substring_def Let_def)
  show ?thesis
    unfolding findBestSplitPoint_def sr Let_def
    by (simp add: sentenceEnds_def clauseBreaks_def lastIndexOf_empty Let_def)
qed

lemma findBalancedSplitPoint_no_budget:
  assumes "maxChars \<le> 0" and "s \<noteq> []"
  shows "findBalancedSplitPoint s maxChars \<le> 0"
proof -
  have "\<not> int (length s) \<le> maxChars * 2" using assms by (cases s) auto
  then show ?thesis
    using findBestSplitPoint_no_budget [OF assms(1), of s]
    by (simp add: findBalancedSplitPoint_def Let_def)
qed

lemma chunkLoop_no_budget:
  assumes "maxChars \<le> 0" and "remaining \<noteq> []" and "trim remaining = remaining"
  shows "chunkLoop maxChars chunks remaining = None"
proof (rule ccontr)
  assume "chunkLoop maxChars chunks remaining \<noteq> None"
  then obtain res where res: "chunkLoop maxChars chunks remaining = Some res" by blast
  have "\<not> (maxChars \<le> 0 \<and> remaining \<noteq> [] \<and> trim remaining = remaining)"
  proof (rule chunkLoop.raw_induct
         [where P = "\<lambda>m cs rem r. \<not> (m \<le> 0 \<and> rem \<noteq> [] \<and> trim rem = rem)", OF _ res])
    fix loop :: "int \<Rightarrow> jsstring list \<Rightarrow> jsstring \<Rightarrow> jsstring list option"
    fix m cs rem r
    assume IH: "\<And>m cs rem r. loop m cs rem = Some r \<Longrightarrow>
                  \<not> (m \<le> 0 \<and> rem \<noteq> [] \<and> trim rem = rem)"
    assume body: "(if m < int (length rem) then
        (let found = findBalancedSplitPoint rem m;
             splitIndex = (if found \<le> 0 then m else found);
             chunk = trim (substring rem 0 splitIndex)
         in loop m (cs @ [chunk]) (trim (substringFrom rem splitIndex)))
      else Some (if length rem > 0 then cs @ [rem] else cs)) = Some r"
    show "\<not> (m \<le> 0 \<and> rem \<noteq> [] \<and> trim rem = rem)"
    proof
      assume c: "m \<le> 0 \<and> rem \<noteq> [] \<and> trim rem = rem"
      then have lt: "m < int (length rem)" by (cases rem) auto
      have found: "findBalancedSplitPoint rem m \<le> 0"
        using c by (intro findBalancedSplitPoint_no_budget) simp_all
      have "substringFrom rem m = rem"
        using c by (simp add: substringFrom_def substring_def Let_def)
      with body lt found c have "loop m (cs @ [trim (substring rem 0 m)]) rem = Some r"
        by (simp add: Let_def)
      from IH [OF this] c show False by simp
    qed
  qed
  with assms show False by simp
qed

lemma splitSegment_no_budget:
  assumes "optMaxCharsPerLine (mergeOptions options) * optMaxLines (mergeOptions options) \<le> 0"
    and "trim (segText segment) \<noteq> []"
  shows "splitSegment segment options = None"
proof -
  let ?m = "optMaxCharsPerLine (mergeOptions options) * optMaxLines (mergeOptions options)"
  let ?t = "trim (segText segment)"
  have "?m < int (length ?t)" using assms by (cases ?t) auto
  moreover have "chunkLoop ?m [] (trim ?t) = None"
    using assms by (intro chunkLoop_no_budget) (simp_all add: trim_trim)
  ultimately show ?thesis
    by (simp add: splitSegment_def splitTextIntoChunks_def Let_def)
qed

subsection \<open>Times of the chunks\<close>





text \<open>The scenario segment splits into two chunks that span \<open>[0, 4]\<close> contiguously.\<close>

lemma splitSegment_scenario:
  "splitSegment scenarioSegment scenarioOptions =
     Some [\<lparr>segId = 0, startTime = 0, endTime = 21 / 11,
             segText = js ''This is a moderately long line of subtitle'', confidence = None\<rparr>,
           \<lparr>segId = 1, startTime = 21 / 11, endTime = 4,
             segText = js ''text that exceeds forty two characters easily'', confidence = None\<rparr>]"
  by code_simp

section \<open>Length of the chunks\<close>

text \<open>
  C2. With the default options (budget \<open>42 * 2 = 84\<close>) a text of 95 letters, one space
  and 54 letters is split at the space, the only one within 20 positions of the midpoint:
  the balanced split of \<open>findBalancedSplitPoint\<close> is not checked against \<open>maxChars\<close>,
  and the first chunk has 95 code units.
\<close>

theorem splitSegment_chunk_too_long:
  "splitSegment
     \<lparr>segId = 0, startTime = 0, endTime = 10,
        segText = replicate 95 97 @ [32] @ replicate 54 97, confidence = None\<rparr>
     \<lparr>maxCharsPerLine = None, maxLines = None, minSegmentDuration = None\<rparr>
   = Some [\<lparr>segId = 0, startTime = 0, endTime = 19 / 3,
             segText = replicate 95 97, confidence = None\<rparr>,
           \<lparr>segId = 1, startTime = 19 / 3, endTime = 10,
             segText = replicate 54 97, confidence = None\<rparr>]"
  by code_simp

section \<open>Line balancing\<close>

lemma isWhiteSpace_space [simp]: "isWhiteSpace 32"
  by (simp add: isWhiteSpace_def)

lemma isWhiteSpace_newline [simp]: "isWhiteSpace 10"
  by (simp add: isWhiteSpace_def)

lemma substring_take: "0 \<le> b \<Longrightarrow> substring s 0 b = take (nat b) s"
  by (auto simp add: substring_def Let_def min_def max_def)

lemma substringFrom_drop: "0 \<le> a \<Longrightarrow> substringFrom s a = drop (nat a) s"
  by (auto simp add: substringFrom_def substring_def Let_def min_def max_def)

subsection \<open>Single-spaced strings\<close>

lemma collapseWhitespace_Nil_iff: "collapseWhitespace s = [] \<longleftrightarrow> s = []"
  by (cases s) auto

lemma collapseWhitespace_hd:
  "s \<noteq> [] \<Longrightarrow> \<not> isWhiteSpace (hd s) \<Longrightarrow> hd (collapseWhitespace s) = hd s"
  by (cases s) auto

lemma singleSpaced_collapse: "singleSpaced (collapseWhitespace s)"
proof (induction s rule: collapseWhitespace.induct)
  case 1
  then show ?case by simp
next
  case (2 c cs)
  show ?case
  proof (cases "isWhiteSpace c")
    case True
    let ?d = "dropWhile isWhiteSpace cs"
    have "collapseWhitespace ?d \<noteq> [] \<longrightarrow> \<not> isWhiteSpace (hd (collapseWhitespace ?d))"
    proof
      assume "collapseWhitespace ?d \<noteq> []"
      then have d: "?d \<noteq> []" by (simp add: collapseWhitespace_Nil_iff)
      then have nw: "\<not> isWhiteSpace (hd ?d)" by (rule hd_dropWhile)
      with d show "\<not> isWhiteSpace (hd (collapseWhitespace ?d))"
        by (simp add: collapseWhitespace_hd)
    qed
    with True 2(1) show ?thesis by simp
  next
    case False
    with 2(2) show ?thesis by simp
  qed
qed

lemma collapse_singleSpaced: "singleSpaced s \<Longrightarrow> collapseWhitespace s = s"
proof (induction s rule: collapseWhitespace.induct)
  case 1
  then show ?case by simp
next
  case (2 c cs)
  show ?case
  proof (cases "isWhiteSpace c")
    case True
    with 2(3) have c: "c = 32" and hd: "cs \<noteq> [] \<longrightarrow> \<not> isWhiteSpace (hd cs)"
      and ss: "singleSpaced cs" by auto
    from hd have dw: "dropWhile isWhiteSpace cs = cs" by (cases cs) auto
    with 2(1) [OF True] ss have "collapseWhitespace cs = cs" by simp
    with True c dw show ?thesis by simp
  next
    case False
    with 2(2) 2(3) show ?thesis by simp
  qed
qed

lemma singleSpaced_append:
  "singleSpaced (a @ b) \<Longrightarrow> singleSpaced a \<and> singleSpaced b"
proof (induction a)
  case Nil
  then show ?case by simp
next
  case (Cons c cs)
  then show ?case by (cases cs) auto
qed

lemma singleSpaced_take: "singleSpaced s \<Longrightarrow> singleSpaced (take n s)"
  using singleSpaced_append [of "take n s" "drop n s"] by simp

lemma singleSpaced_drop: "singleSpaced s \<Longrightarrow> singleSpaced (drop n s)"
  using singleSpaced_append [of "take n s" "drop n s"] by simp

lemma singleSpaced_trim: "singleSpaced s \<Longrightarrow> singleSpaced (trim s)"
proof -
  assume s: "singleSpaced s"
  have "s = takeWhile isWhiteSpace s @ dropWhile isWhiteSpace s" by simp
  with s have d: "singleSpaced (dropWhile isWhiteSpace s)"
    using singleSpaced_append by metis
  obtain t where "dropWhile isWhiteSpace s = trimEnd (dropWhile isWhiteSpace s) @ t"
    using trimEnd_decomp by blast
  with d show ?thesis
    unfolding trim_def using singleSpaced_append by metis
qed

lemma singleSpaced_nth:
  "singleSpaced s \<Longrightarrow> i < length s \<Longrightarrow> isWhiteSpace (s ! i) \<Longrightarrow>
   s ! i = 32 \<and> (Suc i < length s \<longrightarrow> \<not> isWhiteSpace (s ! Suc i))"
proof (induction s arbitrary: i)
  case Nil
  then show ?case by simp
next
  case (Cons c cs)
  show ?case
  proof (cases i)
    case 0
    with Cons.prems show ?thesis by (cases cs) auto
  next
    case (Suc k)
    with Cons.prems Cons.IH [of k] show ?thesis by simp
  qed
qed

lemma singleSpaced_no_newline: "singleSpaced s \<Longrightarrow> replaceNewlines s = s"
proof (induction s)
  case Nil
  then show ?case by (simp add: replaceNewlines_def)
next
  case (Cons c cs)
  then have "replaceNewlines cs = cs" by simp
  moreover have "c \<noteq> 10" using Cons.prems by auto
  ultimately show ?case by (simp add: replaceNewlines_def)
qed


subsection \<open>Where the line balancer breaks\<close>

lemma formatStep_cases:
  "formatStep t m st i = st \<or> (t ! nat i = 32 \<and> i \<le> m \<and> int (length t) - i - 1 \<le> m
     \<and> fst (formatStep t m st i) = i)"
  by (auto simp add: formatStep_def Let_def)

lemma formatStep_foldl:
  assumes "fst st = -1 \<or> breakCandidate t m (fst st)"
    and "\<forall>i \<in> set xs. 10 \<le> i \<and> i \<le> int (length t) - 10"
  shows "fst (foldl (formatStep t m) st xs) = -1
         \<or> breakCandidate t m (fst (foldl (formatStep t m) st xs))"
  using assms
proof (induction xs arbitrary: st)
  case Nil
  then show ?case by simp
next
  case (Cons x xs)
  have "fst (formatStep t m st x) = -1 \<or> breakCandidate t m (fst (formatStep t m st x))"
    using formatStep_cases [of t m st x] Cons.prems
    by (auto simp add: breakCandidate_def)
  moreover have "\<forall>i \<in> set xs. 10 \<le> i \<and> i \<le> int (length t) - 10"
    using Cons.prems by simp
  ultimately show ?case
    using Cons.IH [of "formatStep t m st x"] by simp
qed

lemma formatSearch_cases:
  "formatSearch t m = -1 \<or> breakCandidate t m (formatSearch t m)"
  unfolding formatSearch_def Let_def
  by (rule formatStep_foldl) auto

lemma formatSubtitleText_cases:
  "formatSubtitleText str m = trim str
   \<or> (breakCandidate (trim str) m (formatSearch (trim str) m)
       \<and> formatSubtitleText str m =
           trim (take (nat (formatSearch (trim str) m)) (trim str)) @ [10]
             @ trim (drop (Suc (nat (formatSearch (trim str) m))) (trim str)))"
proof (cases "int (length (trim str)) \<le> m \<or> formatSearch (trim str) m \<le> 0")
  case True
  then show ?thesis by (auto simp add: formatSubtitleText_def Let_def)
next
  case False
  let ?t = "trim str"
  let ?b = "formatSearch ?t m"
  from False formatSearch_cases [of ?t m] have bc: "breakCandidate ?t m ?b" by auto
  then have b: "10 \<le> ?b" by (simp add: breakCandidate_def)
  have "nat (?b + 1) = Suc (nat ?b)" using b by simp
  with False bc b show ?thesis
    by (simp add: formatSubtitleText_def Let_def substring_take substringFrom_drop)
qed

subsection \<open>Cleaning a balanced text gives back the cleaned text\<close>

lemma tidy_break_parts:
  assumes ss: "singleSpaced t" and tr: "trim t = t"
    and b: "0 < b" "b < length t" "t ! b = 32"
  shows "trim (take b t) = take b t" and "trim (drop (Suc b) t) = drop (Suc b) t"
    and "replaceNewlines (take b t @ [10] @ drop (Suc b) t) = t"
proof -
  have ne: "t \<noteq> []" using b by auto
  then have "trim t \<noteq> []" using tr by simp
  from trim_ends [OF this] have ends: "\<not> isWhiteSpace (hd t)" "\<not> isWhiteSpace (last t)"
    using tr by simp_all
  have ws: "isWhiteSpace (t ! b)" using b(3) by simp
  have next_ok: "Suc b < length t \<longrightarrow> \<not> isWhiteSpace (t ! Suc b)"
    using singleSpaced_nth [OF ss b(2) ws] by simp
  have "b \<noteq> length t - 1"
  proof
    assume "b = length t - 1"
    then have "last t = t ! b" using ne by (simp add: last_conv_nth)
    with ends(2) ws show False by simp
  qed
  with b(2) have sb: "Suc b < length t" by linarith
  have prev_ok: "\<not> isWhiteSpace (t ! (b - 1))"
  proof
    assume w: "isWhiteSpace (t ! (b - 1))"
    have "b - 1 < length t" using b by simp
    from singleSpaced_nth [OF ss this w] b(1,2) have "\<not> isWhiteSpace (t ! b)" by simp
    with ws show False by simp
  qed
  have tk_ne: "take b t \<noteq> []" using b ne by simp
  have "hd (take b t) = hd t" using b by (simp add: hd_take)
  moreover have "last (take b t) = t ! (b - 1)"
    using b tk_ne by (simp add: last_conv_nth min_def)
  ultimately show "trim (take b t) = take b t"
    using tk_ne ends(1) prev_ok by (intro trim_id) simp_all
  have dr_ne: "drop (Suc b) t \<noteq> []" using sb by simp
  have "hd (drop (Suc b) t) = t ! Suc b" using sb by (simp add: hd_drop_conv_nth)
  moreover have "last (drop (Suc b) t) = last t" using sb by simp
  ultimately show "trim (drop (Suc b) t) = drop (Suc b) t"
    using dr_ne ends(2) next_ok sb by (intro trim_id) simp_all
  have "replaceNewlines (take b t @ [10] @ drop (Suc b) t)
          = replaceNewlines (take b t) @ [32] @ replaceNewlines (drop (Suc b) t)"
    by (simp add: replaceNewlines_def)
  also have "\<dots> = take b t @ [32] @ drop (Suc b) t"
    using singleSpaced_no_newline [OF singleSpaced_take [OF ss]]
          singleSpaced_no_newline [OF singleSpaced_drop [OF ss]] by simp
  also have "\<dots> = t"
    using b id_take_nth_drop [OF b(2)] by simp
  finally show "replaceNewlines (take b t @ [10] @ drop (Suc b) t) = t" .
qed

lemma cleanText_tidy: "singleSpaced (cleanText s)" "trim (cleanText s) = cleanText s"
  by (simp_all add: cleanText_def singleSpaced_trim singleSpaced_collapse trim_trim)

lemma cleanText_of_tidy:
  assumes "singleSpaced t" and "trim t = t"
  shows "cleanText t = t"
  using assms by (simp add: cleanText_def singleSpaced_no_newline collapse_singleSpaced)

lemma cleanText_format_tidy:
  assumes ss: "singleSpaced t" and tr: "trim t = t"
  shows "cleanText (formatSubtitleText t m) = t"
proof -
  from formatSubtitleText_cases [of t m]
  consider "formatSubtitleText t m = t"
    | "breakCandidate t m (formatSearch t m)"
      "formatSubtitleText t m =
         trim (take (nat (formatSearch t m)) t) @ [10]
           @ trim (drop (Suc (nat (formatSearch t m))) t)"
    unfolding tr by blast
  then show ?thesis
  proof cases
    case 1
    with assms show ?thesis by (simp add: cleanText_of_tidy)
  next
    case 2
    let ?b = "nat (formatSearch t m)"
    from 2(1) have b: "0 < ?b" "?b < length t" "t ! ?b = 32"
      by (auto simp add: breakCandidate_def)
    note parts = tidy_break_parts [OF ss tr b]
    have "formatSubtitleText t m = take ?b t @ [10] @ drop (Suc ?b) t"
      using 2(2) parts(1,2) by simp
    then have "cleanText (formatSubtitleText t m) = trim (collapseWhitespace t)"
      using parts(3) by (simp add: cleanText_def)
    with assms show ?thesis by (simp add: collapse_singleSpaced)
  qed
qed

text \<open>
  C4. Line balancing is idempotent: for every string \<open>x\<close> and every
  \<open>maxCharsPerLine\<close>, balancing the balanced text gives the balanced text.
\<close>

theorem balanceSegmentText_idempotent:
  "balanceSegmentText (balanceSegmentText x m) m = balanceSegmentText x m"
proof -
  have eq: "\<And>y. balanceSegmentText y m = formatSubtitleText (cleanText y) m"
    by (simp add: balanceSegmentText_def cleanText_def Let_def)
  have "cleanText (formatSubtitleText (cleanText x) m) = cleanText x"
    using cleanText_tidy [of x] by (rule cleanText_format_tidy)
  then show ?thesis by (simp add: eq)
qed


lemma spacePositions_mem:
  "0 \<le> i \<Longrightarrow> i < int (length s) \<Longrightarrow> s ! nat i = 32 \<Longrightarrow> i \<in> set (spacePositions s)"
  by (simp add: spacePositions_def)

text \<open>
  C10 (as amended). The line balancer only ever breaks at a space position \<open>i\<close> with
  \<open>10 \<le> i \<le> length - 10\<close> of the trimmed text: the result is either the trimmed text
  or the two trimmed parts around such a position, joined by a line break. Consequently
  a text longer than \<open>maxCharsPerLine\<close> whose spaces all lie within the first 10 or the
  last 9 code units of the trimmed text (positions \<open>i < 10\<close> or \<open>i > length - 10\<close>)
  is returned as a single over-length line with no break inserted.
\<close>

theorem formatSubtitleText_break_position:
  "(formatSubtitleText str m = trim str
    \<or> (\<exists>i. 10 \<le> i \<and> i \<le> int (length (trim str)) - 10 \<and> trim str ! nat i = 32
          \<and> formatSubtitleText str m =
                trim (substring (trim str) 0 i) @ [10] @ trim (substringFrom (trim str) (i + 1))))
   \<and> (m < int (length (trim str))
        \<and> (\<forall>i \<in> set (spacePositions (trim str)). i < 10 \<or> int (length (trim str)) - 10 < i)
       \<longrightarrow> formatSubtitleText str m = trim str \<and> m < int (length (formatSubtitleText str m)))"
proof -
  let ?t = "trim str"
  let ?b = "formatSearch ?t m"
  from formatSubtitleText_cases [of str m]
  consider (same) "formatSubtitleText str m = ?t"
    | (broken) "breakCandidate ?t m ?b"
      "formatSubtitleText str m = trim (take (nat ?b) ?t) @ [10] @ trim (drop (Suc (nat ?b)) ?t)"
    by blast
  then show ?thesis
  proof cases
    case same
    then show ?thesis by simp
  next
    case broken
    from broken(1) have b: "10 \<le> ?b" "?b \<le> int (length ?t) - 10" "?t ! nat ?b = 32"
      by (simp_all add: breakCandidate_def)
    have sb: "nat (?b + 1) = Suc (nat ?b)" using b by simp
    have r: "formatSubtitleText str m =
               trim (substring ?t 0 ?b) @ [10] @ trim (substringFrom ?t (?b + 1))"
      using broken(2) b(1) sb by (simp add: substring_take substringFrom_drop)
    have mem: "?b \<in> set (spacePositions ?t)"
      using b by (intro spacePositions_mem) simp_all
    have "\<not> (\<forall>i \<in> set (spacePositions ?t). i < 10 \<or> int (length ?t) - 10 < i)"
      using mem b by force
    moreover have "\<exists>i. 10 \<le> i \<and> i \<le> int (length ?t) - 10 \<and> ?t ! nat i = 32
          \<and> formatSubtitleText str m =
                trim (substring ?t 0 i) @ [10] @ trim (substringFrom ?t (i + 1))"
      using b r by blast
    ultimately show ?thesis by blast
  qed
qed

theorem formatSubtitleText_break_position_witness:
  "42 < int (length (trim (replicate 41 97 @ [32] @ replicate 8 97)))
   \<and> spacePositions (trim (replicate 41 97 @ [32] @ replicate 8 97)) = [41]
   \<and> formatSubtitleText (replicate 41 97 @ [32] @ replicate 8 97) 42
       = replicate 41 97 @ [32] @ replicate 8 97"
proof -
  let ?w = "replicate 41 97 @ [32] @ replicate 8 97 :: jsstring"
  have tr: "trim ?w = ?w" by code_simp
  have len: "int (length ?w) = 50" by simp
  have sp: "spacePositions ?w = [41]" by code_simp
  have "\<forall>i \<in> set (spacePositions (trim ?w)). i < 10 \<or> int (length (trim ?w)) - 10 < i"
    unfolding tr sp len by simp
  moreover have "42 < int (length (trim ?w))" unfolding tr len by simp
  ultimately have "formatSubtitleText ?w 42 = trim ?w"
    using formatSubtitleText_break_position [of ?w 42] by blast
  then show ?thesis unfolding tr sp len by simp
qed

text \<open>
  C10 as stated fails: position \<open>length - 10\<close> is the first of the last ten positions and
  the search loop includes it. A text of 50 code units whose only space is at position
  40 is broken there.
\<close>

theorem formatSubtitleText_last_ten_counterexample:
  "list_all (inFirstOrLastTen (replicate 40 97 @ [32] @ replicate 9 97))
            (spacePositions (replicate 40 97 @ [32] @ replicate 9 97))
   \<and> trim (replicate 40 97 @ [32] @ replicate 9 97) = replicate 40 97 @ [32] @ replicate 9 97
   \<and> 42 < int (length (replicate 40 97 @ [32] @ replicate 9 97 :: jsstring))
   \<and> formatSubtitleText (replicate 40 97 @ [32] @ replicate 9 97) 42
       = replicate 40 97 @ [10] @ replicate 9 97"
  by code_simp


section \<open>SRT timestamps round trip\<close>

subsection \<open>Decimal fields\<close>













subsection \<open>The fields of a non-negative time\<close>












section \<open>ASS colour encoding\<close>

subsection \<open>The alpha byte\<close>

lemma alpha_table:
  "list_all (\<lambda>opacity. 0 \<le> alphaOf opacity \<and> alphaOf opacity \<le> 255
        \<and> \<bar>100 * alphaOf opacity - 255 * (100 - opacity)\<bar> \<le> 50) [0..100]"
  by code_simp

text \<open>
  The double product is the exact product rounded to a double; \<open>Math.round\<close> of it is
  the exact product rounded to the nearest integer, ties upwards, except at opacity 50
  and 10: there the exact products are 127.5 and 229.5, the double products lie just
  below, and the alpha bytes are 127 and 229.
\<close>

lemma alpha_exact_table:
  "list_all (\<lambda>opacity. alphaOf opacity
        = (if opacity = 50 \<or> opacity = 10 then exactAlpha opacity - 1 else exactAlpha opacity))
     [0..100]"
  by code_simp

lemma alpha_exact:
  assumes "0 \<le> opacity" and "opacity \<le> 100"
  shows "alphaOf opacity
           = (if opacity = 50 \<or> opacity = 10 then exactAlpha opacity - 1 else exactAlpha opacity)"
proof -
  from assms have "opacity \<in> set [0..100]" by simp
  with alpha_exact_table show ?thesis
    unfolding list_all_iff by blast
qed

lemma alpha_bounds:
  assumes "0 \<le> opacity" and "opacity \<le> 100"
  shows "0 \<le> alphaOf opacity" and "alphaOf opacity \<le> 255"
    and "\<bar>100 * alphaOf opacity - 255 * (100 - opacity)\<bar> \<le> 50"
proof -
  from assms have "opacity \<in> set [0..100]" by simp
  with alpha_table show "0 \<le> alphaOf opacity" and "alphaOf opacity \<le> 255"
    and "\<bar>100 * alphaOf opacity - 255 * (100 - opacity)\<bar> \<le> 50"
    unfolding list_all_iff by blast+
qed

lemma alpha_nearest:
  assumes "0 \<le> opacity" and "opacity \<le> 100"
  shows "\<bar>real_of_int (alphaOf opacity) - real_of_int (100 - opacity) * (255 / 100)\<bar> \<le> 1 / 2"
proof -
  have "real_of_int \<bar>100 * alphaOf opacity - 255 * (100 - opacity)\<bar> \<le> real_of_int 50"
    using alpha_bounds(3) [OF assms] by (simp only: of_int_le_iff)
  then have "\<bar>100 * real_of_int (alphaOf opacity) - 255 * real_of_int (100 - opacity)\<bar> \<le> 50"
    by simp
  then show ?thesis by (simp add: field_simps abs_le_iff)
qed

lemma hexDigit_upper: "d < 16 \<Longrightarrow> toUpperCase [hexDigit d] = [upperHexDigit (int d)]"
  by (auto simp add: toUpperCase_def hexDigit_def upperHexDigit_def)

lemma alphaHex_two_digits:
  assumes "0 \<le> a" and "a \<le> 255"
  shows "toUpperCase (padStart (intToString16 a) 2 48)
           = [upperHexDigit (a div 16), upperHexDigit (a mod 16)]"
proof (cases "a < 16")
  case True
  with assms have "hexDigitsOf (nat a) = [hexDigit (nat a)]"
    by (subst hexDigitsOf.simps) simp
  moreover have "toUpperCase [48, hexDigit (nat a)] = [48, upperHexDigit a]"
    using hexDigit_upper [of "nat a"] True assms by (simp add: toUpperCase_def)
  ultimately show ?thesis
    using True assms by (simp add: intToString16_def padStart_def upperHexDigit_def)
next
  case False
  let ?n = "nat a"
  have hi: "?n div 16 < 16" using assms by linarith
  have "hexDigitsOf ?n = hexDigitsOf (?n div 16) @ [hexDigit (?n mod 16)]"
    using False by (subst hexDigitsOf.simps) simp
  also have "hexDigitsOf (?n div 16) = [hexDigit (?n div 16)]"
    using hi by (subst hexDigitsOf.simps) simp
  finally have digits: "hexDigitsOf ?n = [hexDigit (?n div 16), hexDigit (?n mod 16)]" by simp
  have "toUpperCase [hexDigit (?n div 16), hexDigit (?n mod 16)]
          = [upperHexDigit (int (?n div 16)), upperHexDigit (int (?n mod 16))]"
    using hexDigit_upper [OF hi] hexDigit_upper [of "?n mod 16"]
    by (simp add: toUpperCase_def)
  moreover have "int (?n div 16) = a div 16" "int (?n mod 16) = a mod 16"
    using assms by (simp_all add: zdiv_int zmod_int)
  ultimately show ?thesis
    using assms by (simp add: intToString16_def padStart_def digits)
qed

subsection \<open>The colour bytes\<close>

lemma removeFirst_absent: "c \<notin> set s \<Longrightarrow> removeFirst c s = s"
  by (induction s) auto

lemma hex_colour_parts:
  assumes "length c = 6" and "list_all isHexDigit c" and "hexColor = c \<or> hexColor = 35 # c"
  shows "removeFirst 35 hexColor = c"
proof -
  have "35 \<notin> set c" using assms(2) by (auto simp add: list_all_iff isHexDigit_def)
  then have "removeFirst 35 c = c" by (rule removeFirst_absent)
  with assms(3) show ?thesis by auto
qed

lemma substring_six:
  assumes "length h = 6"
  shows "substring h 0 2 = take 2 h" and "substring h 2 4 = take 2 (drop 2 h)"
    and "substring h 4 6 = drop 4 h"
  using assms by (simp_all add: substring_def Let_def)

text \<open>
  C6. For every colour of six hexadecimal digits \<open>RRGGBB\<close> (with or without a leading
  \<open>#\<close>) and every integer opacity from 0 to 100, \<open>hexToASS\<close> returns \<open>&H\<close>, then the
  alpha byte \<open>Math.round((100 - opacity) * 2.55)\<close> as two upper-case hexadecimal
  digits, then the bytes \<open>BB\<close>, \<open>GG\<close>, \<open>RR\<close> in upper case. The alpha byte is the
  product \<open>(100 - opacity) * 255 / 100\<close> rounded to the nearest integer, ties upwards,
  except at opacity 50 and 10, where the double product lies below the tie and the byte
  is one less (\<open>7F\<close> and \<open>E5\<close>); it lies between 0 and 255, it is 0 at opacity 100
  and 255 at opacity 0. Colour \<open>#FFFFFF\<close> at opacity 80 gives \<open>&H33FFFFFF\<close>.
\<close>

theorem hexToASS_encoding:
  assumes "length c = 6" and "list_all isHexDigit c" and "hexColor = c \<or> hexColor = 35 # c"
    and "0 \<le> opacity" and "opacity \<le> 100"
  shows "hexToASS hexColor opacity
           = js ''&H'' @ [upperHexDigit (alphaOf opacity div 16),
                          upperHexDigit (alphaOf opacity mod 16)]
               @ toUpperCase (drop 4 c) @ toUpperCase (take 2 (drop 2 c)) @ toUpperCase (take 2 c)
         \<and> alphaOf opacity
             = (if opacity = 50 \<or> opacity = 10 then exactAlpha opacity - 1
                else exactAlpha opacity)
         \<and> 0 \<le> alphaOf opacity \<and> alphaOf opacity \<le> 255
         \<and> \<bar>real_of_int (alphaOf opacity) - real_of_int (100 - opacity) * (255 / 100)\<bar> \<le> 1 / 2
         \<and> alphaOf 100 = 0 \<and> alphaOf 0 = 255
         \<and> hexToASS (js ''#FFFFFF'') 80 = js ''&H33FFFFFF''"
proof -
  let ?hex = "toUpperCase c"
  have len: "length ?hex = 6" using assms(1) by (simp add: toUpperCase_def)
  have parts: "substring ?hex 0 2 = toUpperCase (take 2 c)"
    "substring ?hex 2 4 = toUpperCase (take 2 (drop 2 c))"
    "substring ?hex 4 6 = toUpperCase (drop 4 c)"
    using substring_six [OF len] by (simp_all add: toUpperCase_def take_map drop_map)
  note ab = alpha_bounds [OF assms(4,5)]
  have "hexToASS hexColor opacity
           = js ''&H'' @ [upperHexDigit (alphaOf opacity div 16),
                          upperHexDigit (alphaOf opacity mod 16)]
               @ toUpperCase (drop 4 c) @ toUpperCase (take 2 (drop 2 c)) @ toUpperCase (take 2 c)"
    unfolding hexToASS_def Let_def hex_colour_parts [OF assms(1,2,3)] parts
      alphaHex_two_digits [OF ab(1,2)] by simp
  moreover have "alphaOf 100 = 0" by code_simp
  moreover have "alphaOf 0 = 255" by code_simp
  moreover have "hexToASS (js ''#FFFFFF'') 80 = js ''&H33FFFFFF''" by code_simp
  ultimately show ?thesis
    using ab(1,2) alpha_nearest [OF assms(4,5)] alpha_exact [OF assms(4,5)] by blast
qed

theorem hexToASS_encoding_witness:
  "length (js ''ffcc00'') = 6 \<and> list_all isHexDigit (js ''ffcc00'')
   \<and> (0::int) \<le> 50 \<and> (50::int) \<le> 100 \<and> (0::int) \<le> 30 \<and> (30::int) \<le> 100
   \<and> hexToASS (35 # js ''ffcc00'') 50 = js ''&H7F00CCFF''
   \<and> hexToASS (js ''ffcc00'') 30 = js ''&HB300CCFF''
   \<and> alphaOf 50 = 127 \<and> alphaOf 30 = 179"
proof -
  have h1: "length (js ''ffcc00'') = 6" by (simp add: js_def)
  have h2: "list_all isHexDigit (js ''ffcc00'')" by code_simp
  have h3: "35 # js ''ffcc00'' = js ''ffcc00'' \<or> 35 # js ''ffcc00'' = 35 # js ''ffcc00''" by simp
  have h3': "js ''ffcc00'' = js ''ffcc00'' \<or> js ''ffcc00'' = 35 # js ''ffcc00''" by simp
  have h4: "(0::int) \<le> 50" and h5: "(50::int) \<le> 100" by simp_all
  have h6: "(0::int) \<le> 30" and h7: "(30::int) \<le> 100" by simp_all
  have e50: "exactAlpha 50 - 1 = 127" and e30: "exactAlpha 30 = 179"
    by (simp_all add: exactAlpha_def)
  note t50 = hexToASS_encoding [OF h1 h2 h3 h4 h5]
  note t30 = hexToASS_encoding [OF h1 h2 h3' h6 h7]
  from t50 e50 have a50: "alphaOf 50 = 127" by simp
  from t30 e30 have a30: "alphaOf 30 = 179" by simp
  have rhs50: "js ''&H'' @ [upperHexDigit (127 div 16), upperHexDigit (127 mod 16)]
               @ toUpperCase (drop 4 (js ''ffcc00'')) @ toUpperCase (take 2 (drop 2 (js ''ffcc00'')))
               @ toUpperCase (take 2 (js ''ffcc00'')) = js ''&H7F00CCFF''"
    by code_simp
  have rhs30: "js ''&H'' @ [upperHexDigit (179 div 16), upperHexDigit (179 mod 16)]
               @ toUpperCase (drop 4 (js ''ffcc00'')) @ toUpperCase (take 2 (drop 2 (js ''ffcc00'')))
               @ toUpperCase (take 2 (js ''ffcc00'')) = js ''&HB300CCFF''"
    by code_simp
  from t50 have "hexToASS (35 # js ''ffcc00'') 50 = js ''&H7F00CCFF''"
    unfolding a50 rhs50 by blast
  moreover from t30 have "hexToASS (js ''ffcc00'') 30 = js ''&HB300CCFF''"
    unfolding a30 rhs30 by blast
  ultimately show ?thesis using h1 h2 a50 a30 by simp
qed


section \<open>Temp file release\<close>

lemma cleanupTempFile_never_throws: "\<exists>fs'. cleanupTempFile w fs filePath = Inr fs'"
  by (simp add: cleanupTempFile_def split: sum.splits)

lemma cleanupTempFile_absent:
  "filePath \<notin> fs \<Longrightarrow> cleanupTempFile w fs filePath = Inr fs"
  by (simp add: cleanupTempFile_def existsSync_def)

lemma cleanupTempFile_not_prefixed:
  "\<not> startsWith filePath (TEMP_DIR w) \<Longrightarrow> cleanupTempFile w fs filePath = Inr fs"
  by (simp add: cleanupTempFile_def)

lemma cleanupTempFile_result:
  "cleanupTempFile w fs filePath =
     Inr (if filePath \<in> fs \<and> startsWith filePath (TEMP_DIR w) \<and> removable w filePath
          then fs - {filePath} else fs)"
  by (simp add: cleanupTempFile_def existsSync_def unlinkSync_def)

lemma cleanupTempFile_idempotent:
  "cleanupTempFile w fs filePath = Inr fs' \<Longrightarrow> cleanupTempFile w fs' filePath = Inr fs'"
  by (auto simp add: cleanupTempFile_result split: if_splits)

text \<open>
  C7. \<open>cleanupTempFile\<close> never throws, does nothing when the file is already gone and is
  idempotent (the three lemmas above), but its guard is a string prefix test: with the
  scratch directory \<open>/tmp/subzcreator\<close>, the existing file
  \<open>/tmp/subzcreator-old/clip.mp4\<close> lies outside the scratch directory, and
  \<open>cleanupTempFile\<close> deletes it.
\<close>

theorem cleanupTempFile_deletes_outside_scratch:
  "\<not> insideDirectory (TEMP_DIR videoWorld) ''/tmp/subzcreator-old/clip.mp4''
   \<and> cleanupTempFile videoWorld
        {''/tmp/subzcreator-old/clip.mp4'', ''/tmp/subzcreator/a.mp3''}
        ''/tmp/subzcreator-old/clip.mp4''
      = Inr {''/tmp/subzcreator/a.mp3''}"
  by (simp add: cleanupTempFile_result insideDirectory_def videoWorld_def startsWith_def
      allRemovable_def) 

section \<open>Steps of a job\<close>

lemma runTool_elim:
  assumes "runTool w run p m j = (r, j')"
  shows "steps j' = steps j" and "tempFiles j' = tempFiles j" and "dbRecord j' = dbRecord j"
    and "run = Succeeds \<Longrightarrow> r = Inr p"
    and "run \<noteq> Succeeds \<Longrightarrow> r = Inl (codecThrows w run p m (files j))"
    and "run = Succeeds \<Longrightarrow> files j' = insert p (files j)"
  using assms
  by (auto simp add: runTool_def Let_def existsSync_def unlinkSync_def codecThrows_def
      split: toolRun.splits if_splits sum.splits)


lemma extractAudio_elim:
  assumes "extractAudioForTranscription w j = (r, j')"
  shows "steps j' = steps j @ [AudioExtract]" and "tempFiles j' = tempFiles j"
    and "dbRecord j' = dbRecord j"
    and "audioRun w = Succeeds \<Longrightarrow> r = Inr (audioPath w)"
    and "audioRun w \<noteq> Succeeds \<Longrightarrow>
           r = Inl (codecThrows w (audioRun w) (audioPath w) ''Failed to extract audio'' (files j))"
    and "audioRun w = Succeeds \<Longrightarrow> files j' = insert (audioPath w) (files j)"
  using runTool_elim [OF assms [unfolded extractAudioForTranscription_def]] by simp_all

lemma convertTo480p_elim:
  assumes "convertTo480p w j = (r, j')"
  shows "steps j' = steps j @ [PreviewTranscode]" and "tempFiles j' = tempFiles j"
    and "dbRecord j' = dbRecord j"
    and "previewRun w = Succeeds \<Longrightarrow> r = Inr (previewPath w)"
    and "previewRun w \<noteq> Succeeds \<Longrightarrow>
           r = Inl (codecThrows w (previewRun w) (previewPath w) ''Failed to convert to 480p''
                      (files j))"
  using runTool_elim [OF assms [unfolded convertTo480p_def]] by simp_all

lemma extractThumbnail_elim:
  assumes "extractThumbnail w j = (r, j')"
  shows "steps j' = steps j @ [ThumbnailExtract]" and "tempFiles j' = tempFiles j"
    and "dbRecord j' = dbRecord j"
    and "thumbnailMade w \<Longrightarrow> r = Inr (thumbnailPath w)"
    and "\<not> thumbnailMade w \<Longrightarrow> \<exists>e. r = Inl e"
proof -
  show "steps j' = steps j @ [ThumbnailExtract]" and "tempFiles j' = tempFiles j"
    and "dbRecord j' = dbRecord j"
    using assms runTool_elim(1,2,3) [of w "thumbnailRun w" "thumbnailPath w"
        "''Failed to extract thumbnail''" "j\<lparr>steps := steps j @ [ThumbnailExtract]\<rparr>" r j']
    by (auto simp add: extractThumbnail_def Let_def split: if_splits)
  show "thumbnailMade w \<Longrightarrow> r = Inr (thumbnailPath w)"
    using assms runTool_elim(4) [of w "thumbnailRun w" "thumbnailPath w"
        "''Failed to extract thumbnail''" "j\<lparr>steps := steps j @ [ThumbnailExtract]\<rparr>" r j']
    by (auto simp add: extractThumbnail_def thumbnailMade_def Let_def split: if_splits)
  show "\<not> thumbnailMade w \<Longrightarrow> \<exists>e. r = Inl e"
    using assms runTool_elim(5) [of w "thumbnailRun w" "thumbnailPath w"
        "''Failed to extract thumbnail''" "j\<lparr>steps := steps j @ [ThumbnailExtract]\<rparr>" r j']
    by (auto simp add: extractThumbnail_def thumbnailMade_def Let_def split: if_splits)
qed

text \<open>
  What \<open>processMediaFile\<close> does, by the run of the audio extraction, the kind of source
  and the run of the preview transcode.
\<close>

lemma processMediaFile_frame:
  assumes "processMediaFile w j = (r, j')"
  shows "tempFiles j' = tempFiles j" and "dbRecord j' = dbRecord j"
proof -
  obtain j1 where j1: "isVideoFile w j = (videoSource w, j1)"
    "tempFiles j1 = tempFiles j" "dbRecord j1 = dbRecord j"
    by (auto simp add: isVideoFile_def videoSource_def split: option.splits)
  obtain ra j2 where a: "extractAudioForTranscription w j1 = (ra, j2)" by fastforce
  note af = extractAudio_elim(2,3) [OF a]
  obtain rp j3 where p: "convertTo480p w j2 = (rp, j3)" by fastforce
  note pf = convertTo480p_elim(2,3) [OF p]
  obtain rt j4 where t: "extractThumbnail w j3 = (rt, j4)" by fastforce
  note tf = extractThumbnail_elim(2,3) [OF t]
  from assms have "(tempFiles j', dbRecord j') = (tempFiles j, dbRecord j)"
    using j1(2,3) af pf tf
    by (auto simp add: processMediaFile_def j1(1) a p t split: sum.splits if_splits)
  then show "tempFiles j' = tempFiles j" and "dbRecord j' = dbRecord j" by simp_all
qed

lemma processMediaFile_audio_fails:
  assumes "processMediaFile w j = (r, j')" and "audioRun w \<noteq> Succeeds"
  shows "steps j' = steps j @ [Probe, AudioExtract]"
    and "r = Inl (codecThrows w (audioRun w) (audioPath w) ''Failed to extract audio'' (files j))"
proof -
  obtain j1 where j1: "isVideoFile w j = (videoSource w, j1)" "steps j1 = steps j @ [Probe]"
    "files j1 = files j"
    by (auto simp add: isVideoFile_def videoSource_def split: option.splits)
  obtain ra j2 where a: "extractAudioForTranscription w j1 = (ra, j2)" by fastforce
  note e = extractAudio_elim(5) [OF a assms(2)]
  from assms(1)
  have "r = Inl (codecThrows w (audioRun w) (audioPath w) ''Failed to extract audio'' (files j1))"
    "j' = j2"
    by (auto simp add: processMediaFile_def j1 a e split: sum.splits if_splits)
  with extractAudio_elim(1) [OF a] j1(2,3) e
  show "steps j' = steps j @ [Probe, AudioExtract]"
    and "r = Inl (codecThrows w (audioRun w) (audioPath w) ''Failed to extract audio'' (files j))"
    by simp_all
qed

lemma processMediaFile_audio_only:
  assumes "processMediaFile w j = (r, j')" and "audioRun w = Succeeds" and "\<not> videoSource w"
  shows "steps j' = steps j @ [Probe, AudioExtract]"
    and "r = Inr \<lparr>isVideo = False, resultPreviewPath = None, resultThumbnailPath = None,
                  resultAudioPath = audioPath w\<rparr>"
proof -
  obtain j1 where j1: "isVideoFile w j = (False, j1)" "steps j1 = steps j @ [Probe]"
    using assms(3) by (cases "probeVideo w") (auto simp add: isVideoFile_def videoSource_def)
  obtain ra j2 where a: "extractAudioForTranscription w j1 = (ra, j2)" by fastforce
  note ra = extractAudio_elim(4) [OF a assms(2)]
  from assms(1) have "r = Inr \<lparr>isVideo = False, resultPreviewPath = None,
      resultThumbnailPath = None, resultAudioPath = audioPath w\<rparr>" "j' = j2"
    by (auto simp add: processMediaFile_def j1 a ra split: sum.splits if_splits)
  with extractAudio_elim(1) [OF a] j1(2)
  show "steps j' = steps j @ [Probe, AudioExtract]"
    and "r = Inr \<lparr>isVideo = False, resultPreviewPath = None, resultThumbnailPath = None,
                  resultAudioPath = audioPath w\<rparr>"
    by simp_all
qed

lemma processMediaFile_preview_fails:
  assumes "processMediaFile w j = (r, j')" and "audioRun w = Succeeds" and "videoSource w"
    and "previewRun w \<noteq> Succeeds"
  shows "steps j' = steps j @ [Probe, AudioExtract, PreviewTranscode]"
    and "r = Inl (codecThrows w (previewRun w) (previewPath w) ''Failed to convert to 480p''
                    (insert (audioPath w) (files j)))"
proof -
  obtain j1 where j1: "isVideoFile w j = (True, j1)" "steps j1 = steps j @ [Probe]"
    "files j1 = files j"
    using assms(3) by (auto simp add: isVideoFile_def videoSource_def split: option.splits)
  obtain ra j2 where a: "extractAudioForTranscription w j1 = (ra, j2)" by fastforce
  note ra = extractAudio_elim(4) [OF a assms(2)]
  note fa = extractAudio_elim(6) [OF a assms(2)]
  obtain rp j3 where p: "convertTo480p w j2 = (rp, j3)" by fastforce
  note e = convertTo480p_elim(5) [OF p assms(4)]
  from assms(1)
  have "r = Inl (codecThrows w (previewRun w) (previewPath w) ''Failed to convert to 480p''
                   (files j2))" "j' = j3"
    by (auto simp add: processMediaFile_def j1 a ra p e split: sum.splits if_splits)
  with convertTo480p_elim(1) [OF p] extractAudio_elim(1) [OF a] j1(2,3) e fa
  show "steps j' = steps j @ [Probe, AudioExtract, PreviewTranscode]"
    and "r = Inl (codecThrows w (previewRun w) (previewPath w) ''Failed to convert to 480p''
                    (insert (audioPath w) (files j)))"
    by simp_all
qed

lemma processMediaFile_video:
  assumes "processMediaFile w j = (r, j')" and "audioRun w = Succeeds" and "videoSource w"
    and "previewRun w = Succeeds"
  shows "steps j' = steps j @ [Probe, AudioExtract, PreviewTranscode, ThumbnailExtract]"
    and "r = Inr \<lparr>isVideo = True, resultPreviewPath = Some (previewPath w),
                  resultThumbnailPath = (if thumbnailMade w then Some (thumbnailPath w) else None),
                  resultAudioPath = audioPath w\<rparr>"
proof -
  obtain j1 where j1: "isVideoFile w j = (True, j1)" "steps j1 = steps j @ [Probe]"
    using assms(3) by (auto simp add: isVideoFile_def videoSource_def split: option.splits)
  obtain ra j2 where a: "extractAudioForTranscription w j1 = (ra, j2)" by fastforce
  note ra = extractAudio_elim(4) [OF a assms(2)]
  obtain rp j3 where p: "convertTo480p w j2 = (rp, j3)" by fastforce
  note rp = convertTo480p_elim(4) [OF p assms(4)]
  obtain rt j4 where t: "extractThumbnail w j3 = (rt, j4)" by fastforce
  have st: "steps j4 = steps j @ [Probe, AudioExtract, PreviewTranscode, ThumbnailExtract]"
    using extractThumbnail_elim(1) [OF t] convertTo480p_elim(1) [OF p]
      extractAudio_elim(1) [OF a] j1(2) by simp
  show "steps j' = steps j @ [Probe, AudioExtract, PreviewTranscode, ThumbnailExtract]"
    using assms(1) st
    by (auto simp add: processMediaFile_def j1(1) a ra p rp t split: sum.splits)
  show "r = Inr \<lparr>isVideo = True, resultPreviewPath = Some (previewPath w),
                  resultThumbnailPath = (if thumbnailMade w then Some (thumbnailPath w) else None),
                  resultAudioPath = audioPath w\<rparr>"
  proof (cases "thumbnailMade w")
    case True
    from extractThumbnail_elim(4) [OF t True] assms(1) True show ?thesis
      by (auto simp add: processMediaFile_def j1 a ra p rp t split: sum.splits if_splits)
  next
    case False
    from extractThumbnail_elim(5) [OF t False] assms(1) False show ?thesis
      by (auto simp add: processMediaFile_def j1 a ra p rp t split: sum.splits if_splits)
  qed
qed


lemma updateFileProgress_simps [simp]:
  "steps (updateFileProgress w n st j) = steps j @ [ProgressUpdate n]"
  "tempFiles (updateFileProgress w n st j) = tempFiles j"
  "files (updateFileProgress w n st j) = files j"
  "ThumbnailUrl (dbRecord (updateFileProgress w n st j)) = ThumbnailUrl (dbRecord j)"
  "ProcessingError (dbRecord (updateFileProgress w n st j)) = ProcessingError (dbRecord j)"
  by (simp_all add: updateFileProgress_def Let_def)

lemma persistResults_steps:
  "steps (snd (persistResults w v result j))
     = steps j @ persistSteps w (v \<and> resultPreviewPath result \<noteq> None)
                                (v \<and> resultThumbnailPath result \<noteq> None)"
  by (auto simp add: persistResults_def uploadIf_def Let_def persistSteps_def
      previewUploadSteps_def thumbnailUploadSteps_def
      split: sum.splits option.splits)


lemma persistResults_outcome:
  "fst (persistResults w v result j) =
     (if isl (uploadAudio w) then Inl (projl (uploadAudio w))
      else if v \<and> resultPreviewPath result \<noteq> None \<and> isl (uploadPreview w)
        then Inl (projl (uploadPreview w))
      else if v \<and> resultThumbnailPath result \<noteq> None \<and> isl (uploadThumbnail w)
        then Inl (projl (uploadThumbnail w))
      else (case readyUpdate w of Some e \<Rightarrow> Inl e | None \<Rightarrow> Inr ()))"
  by (auto simp add: persistResults_def uploadIf_def Let_def
      split: sum.splits option.splits)

lemma persistResults_ready:
  assumes "fst (persistResults w v result j) = Inr u"
  shows "Status (dbRecord (snd (persistResults w v result j))) = ''ready''"
    and "ThumbnailUrl (dbRecord (snd (persistResults w v result j)))
           = (if v \<and> resultThumbnailPath result \<noteq> None
              then orNull (Some (projr (uploadThumbnail w))) else None)"
  using assms
  by (auto simp add: persistResults_def uploadIf_def Let_def orNull_def
      split: sum.splits option.splits if_splits)

text \<open>The four ways \<open>processMediaFile\<close> can go.\<close>

lemma processSteps_audio_fails:
  assumes "audioRun w \<noteq> Succeeds"
  shows "steps (snd (processSteps w v j)) = steps j @ ProgressUpdate 20 # [Probe, AudioExtract]"
    and "\<exists>e. fst (processSteps w v j) = Inl e \<and> throwsAt w (files j) AudioExtract e"
proof -
  let ?j1 = "updateFileProgress w 20 ''processing'' j"
  obtain r2 j2 where pm: "processMediaFile w ?j1 = (r2, j2)" by fastforce
  note st = processMediaFile_audio_fails(1) [OF pm assms]
  note e = processMediaFile_audio_fails(2) [OF pm assms]
  have ps: "processSteps w v j
              = (Inl (codecThrows w (audioRun w) (audioPath w) ''Failed to extract audio''
                        (files j)), j2)"
    using e by (simp add: processSteps_def pm)
  show "steps (snd (processSteps w v j)) = steps j @ ProgressUpdate 20 # [Probe, AudioExtract]"
    by (simp add: ps st)
  show "\<exists>e. fst (processSteps w v j) = Inl e \<and> throwsAt w (files j) AudioExtract e"
    by (simp add: ps throwsAt_def)
qed

lemma processSteps_preview_fails:
  assumes "audioRun w = Succeeds" and "videoSource w" and "previewRun w \<noteq> Succeeds"
  shows "steps (snd (processSteps w v j))
           = steps j @ ProgressUpdate 20 # [Probe, AudioExtract, PreviewTranscode]"
    and "\<exists>e. fst (processSteps w v j) = Inl e \<and> throwsAt w (files j) PreviewTranscode e"
proof -
  let ?j1 = "updateFileProgress w 20 ''processing'' j"
  obtain r2 j2 where pm: "processMediaFile w ?j1 = (r2, j2)" by fastforce
  note st = processMediaFile_preview_fails(1) [OF pm assms]
  note e = processMediaFile_preview_fails(2) [OF pm assms]
  have ps: "processSteps w v j
              = (Inl (codecThrows w (previewRun w) (previewPath w) ''Failed to convert to 480p''
                        (insert (audioPath w) (files j))), j2)"
    using e by (simp add: processSteps_def pm)
  show "steps (snd (processSteps w v j))
          = steps j @ ProgressUpdate 20 # [Probe, AudioExtract, PreviewTranscode]"
    by (simp add: ps st)
  show "\<exists>e. fst (processSteps w v j) = Inl e \<and> throwsAt w (files j) PreviewTranscode e"
    by (simp add: ps throwsAt_def)
qed

lemma processSteps_transcoded:
  assumes "audioRun w = Succeeds" and "videoSource w \<longrightarrow> previewRun w = Succeeds"
  shows "\<exists>result j2.
           processSteps w v j = persistResults w v result j2
           \<and> steps j2 = steps j @ ProgressUpdate 20 # mediaSteps w
           \<and> (resultPreviewPath result \<noteq> None \<longleftrightarrow> videoSource w)
           \<and> (resultThumbnailPath result \<noteq> None \<longleftrightarrow> videoSource w \<and> thumbnailMade w)"
proof -
  let ?j1 = "updateFileProgress w 20 ''processing'' j"
  obtain r2 j2 where pm: "processMediaFile w ?j1 = (r2, j2)" by fastforce
  show ?thesis
  proof (cases "videoSource w")
    case True
    with assms have pr: "previewRun w = Succeeds" by simp
    note v = processMediaFile_video [OF pm assms(1) True pr]
    have "processSteps w v j = persistResults w v
            \<lparr>isVideo = True, resultPreviewPath = Some (previewPath w),
               resultThumbnailPath = (if thumbnailMade w then Some (thumbnailPath w) else None),
               resultAudioPath = audioPath w\<rparr> j2"
      by (simp add: processSteps_def pm v(2))
    moreover have "steps j2 = steps j @ ProgressUpdate 20 # mediaSteps w"
      using v(1) True assms(1) pr by (simp add: mediaSteps_def)
    ultimately show ?thesis using True by force
  next
    case False
    note a = processMediaFile_audio_only [OF pm assms(1) False]
    have "processSteps w v j = persistResults w v
            \<lparr>isVideo = False, resultPreviewPath = None, resultThumbnailPath = None,
               resultAudioPath = audioPath w\<rparr> j2"
      by (simp add: processSteps_def pm a(2))
    moreover have "steps j2 = steps j @ ProgressUpdate 20 # mediaSteps w"
      using a(1) False by (simp add: mediaSteps_def)
    ultimately show ?thesis using False by force
  qed
qed

lemma processSteps_steps:
  "steps (snd (processSteps w v j)) = steps j @ ProgressUpdate 20 # mediaSteps w @ laterSteps w v"
proof -
  consider (audio) "audioRun w \<noteq> Succeeds"
    | (preview) "audioRun w = Succeeds" "videoSource w" "previewRun w \<noteq> Succeeds"
    | (transcoded) "audioRun w = Succeeds" "videoSource w \<longrightarrow> previewRun w = Succeeds"
    by blast
  then show ?thesis
  proof cases
    case audio
    then show ?thesis
      using processSteps_audio_fails(1) [OF audio, of v j]
      by (simp add: mediaSteps_def laterSteps_def)
  next
    case preview
    then show ?thesis
      using processSteps_preview_fails(1) [OF preview, of v j]
      by (simp add: mediaSteps_def laterSteps_def)
  next
    case transcoded
    from processSteps_transcoded [OF transcoded, of v j] obtain result j2 where
      ps: "processSteps w v j = persistResults w v result j2"
      and st: "steps j2 = steps j @ ProgressUpdate 20 # mediaSteps w"
      and pp: "resultPreviewPath result \<noteq> None \<longleftrightarrow> videoSource w"
      and tp: "resultThumbnailPath result \<noteq> None \<longleftrightarrow> videoSource w \<and> thumbnailMade w"
      by blast
    have "laterSteps w v = persistSteps w (v \<and> videoSource w) (v \<and> videoSource w \<and> thumbnailMade w)"
      using transcoded by (auto simp add: laterSteps_def)
    then show ?thesis
      unfolding ps persistResults_steps st using pp tp by simp
  qed
qed

lemma processSteps_outcome:
  "(firstFatal w v = None \<longrightarrow> fst (processSteps w v j) = Inr ())
   \<and> (\<forall>s. firstFatal w v = Some s \<longrightarrow>
          (\<exists>e. fst (processSteps w v j) = Inl e \<and> throwsAt w (files j) s e))"
proof -
  consider (audio) "audioRun w \<noteq> Succeeds"
    | (preview) "audioRun w = Succeeds" "videoSource w" "previewRun w \<noteq> Succeeds"
    | (transcoded) "audioRun w = Succeeds" "videoSource w \<longrightarrow> previewRun w = Succeeds"
    by blast
  then show ?thesis
  proof cases
    case audio
    then show ?thesis
      using processSteps_audio_fails(2) [OF audio, of v j] by (simp add: firstFatal_def)
  next
    case preview
    then show ?thesis
      using processSteps_preview_fails(2) [OF preview, of v j] by (simp add: firstFatal_def)
  next
    case transcoded
    from processSteps_transcoded [OF transcoded, of v j] obtain result j2 where
      ps: "processSteps w v j = persistResults w v result j2"
      and pp: "resultPreviewPath result \<noteq> None \<longleftrightarrow> videoSource w"
      and tp: "resultThumbnailPath result \<noteq> None \<longleftrightarrow> videoSource w \<and> thumbnailMade w"
      by blast
    show ?thesis
      unfolding ps persistResults_outcome using transcoded pp tp
      by (auto simp add: firstFatal_def throwsAt_def isl_def split: option.splits)
  qed
qed

lemma processSteps_ready:
  assumes "firstFatal w v = None"
  shows "Status (dbRecord (snd (processSteps w v j))) = ''ready''"
    and "ThumbnailUrl (dbRecord (snd (processSteps w v j)))
           = (if v \<and> videoSource w \<and> thumbnailMade w
              then orNull (Some (projr (uploadThumbnail w))) else None)"
proof -
  from assms have t: "audioRun w = Succeeds" "videoSource w \<longrightarrow> previewRun w = Succeeds"
    by (auto simp add: firstFatal_def split: if_splits)
  from processSteps_transcoded [OF t, of v j] obtain result j2 where
    ps: "processSteps w v j = persistResults w v result j2"
    and tp: "resultThumbnailPath result \<noteq> None \<longleftrightarrow> videoSource w \<and> thumbnailMade w"
    by blast
  from processSteps_outcome [of w v j] assms
  have ok: "fst (persistResults w v result j2) = Inr ()" by (simp add: ps)
  show "Status (dbRecord (snd (processSteps w v j))) = ''ready''"
    unfolding ps by (rule persistResults_ready(1) [OF ok])
  show "ThumbnailUrl (dbRecord (snd (processSteps w v j)))
           = (if v \<and> videoSource w \<and> thumbnailMade w
              then orNull (Some (projr (uploadThumbnail w))) else None)"
    unfolding ps persistResults_ready(2) [OF ok] using tp by auto
qed


subsection \<open>Error status and cleanup\<close>

lemma cleanupAll_steps: "steps (cleanupAll w ps j) = steps j @ map CleanupFile ps"
  by (induction ps arbitrary: j) (simp_all add: cleanupTempFile_result)

lemma cleanupAll_frame:
  "tempFiles (cleanupAll w ps j) = tempFiles j" "dbRecord (cleanupAll w ps j) = dbRecord j"
  by (induction ps arbitrary: j) (simp_all add: cleanupTempFile_result)

lemma cleanupAll_files:
  "files (cleanupAll w ps j)
     = files j - {p \<in> set ps. startsWith p (TEMP_DIR w) \<and> removable w p}"
  by (induction ps arbitrary: j) (auto simp add: cleanupTempFile_result)

lemma recordFailure_simps [simp]:
  "steps (recordFailure w e j) = steps j @ [PersistError]"
  "tempFiles (recordFailure w e j) = tempFiles j"
  "errorUpdate w \<Longrightarrow> Status (dbRecord (recordFailure w e j)) = ''error''"
  "errorUpdate w \<Longrightarrow> ProcessingError (dbRecord (recordFailure w e j)) = Some (thrownMessage e)"
  by (simp_all add: recordFailure_def Let_def)

lemma processInBackground_steps:
  "steps (processInBackground w v j)
     = steps j @ ProgressUpdate 20 # mediaSteps w @ laterSteps w v
       @ (if firstFatal w v = None then [] else [PersistError])
       @ map CleanupFile (tempFiles (processInBackground w v j))"
proof (cases "firstFatal w v")
  case None
  with processSteps_outcome [of w v j] have "fst (processSteps w v j) = Inr ()" by simp
  then obtain j' where ps: "processSteps w v j = (Inr (), j')" by (metis prod.collapse)
  have "steps j' = steps j @ ProgressUpdate 20 # mediaSteps w @ laterSteps w v"
    using processSteps_steps [of w v j] by (simp add: ps)
  then show ?thesis
    using None by (simp add: processInBackground_def ps cleanupAll_steps cleanupAll_frame)
next
  case (Some s)
  with processSteps_outcome [of w v j] obtain e where "fst (processSteps w v j) = Inl e" by blast
  then obtain j' where ps: "processSteps w v j = (Inl e, j')" by (metis prod.collapse)
  have "steps j' = steps j @ ProgressUpdate 20 # mediaSteps w @ laterSteps w v"
    using processSteps_steps [of w v j] by (simp add: ps)
  then show ?thesis
    using Some by (simp add: processInBackground_def ps cleanupAll_steps cleanupAll_frame)
qed

lemma processInBackground_ready:
  assumes "firstFatal w v = None"
  shows "Status (dbRecord (processInBackground w v j)) = ''ready''"
    and "ThumbnailUrl (dbRecord (processInBackground w v j))
           = (if v \<and> videoSource w \<and> thumbnailMade w
              then orNull (Some (projr (uploadThumbnail w))) else None)"
proof -
  from processSteps_outcome [of w v j] assms have "fst (processSteps w v j) = Inr ()" by simp
  then obtain j' where ps: "processSteps w v j = (Inr (), j')" by (metis prod.collapse)
  have eq: "dbRecord (processInBackground w v j) = dbRecord (snd (processSteps w v j))"
    by (simp add: processInBackground_def ps cleanupAll_frame)
  show "Status (dbRecord (processInBackground w v j)) = ''ready''"
    unfolding eq by (rule processSteps_ready(1) [OF assms])
  show "ThumbnailUrl (dbRecord (processInBackground w v j))
           = (if v \<and> videoSource w \<and> thumbnailMade w
              then orNull (Some (projr (uploadThumbnail w))) else None)"
    unfolding eq by (rule processSteps_ready(2) [OF assms])
qed

lemma processInBackground_error:
  assumes "firstFatal w v = Some s" and "errorUpdate w"
  shows "Status (dbRecord (processInBackground w v j)) = ''error''"
    and "\<exists>e. throwsAt w (files j) s e
            \<and> ProcessingError (dbRecord (processInBackground w v j)) = Some (thrownMessage e)"
proof -
  from processSteps_outcome [of w v j] assms(1) obtain e where
    e: "fst (processSteps w v j) = Inl e" "throwsAt w (files j) s e" by blast
  then obtain j' where ps: "processSteps w v j = (Inl e, j')" by (metis prod.collapse)
  show "Status (dbRecord (processInBackground w v j)) = ''error''"
    using assms(2) by (simp add: processInBackground_def ps cleanupAll_frame)
  have "ProcessingError (dbRecord (processInBackground w v j)) = Some (thrownMessage e)"
    using assms(2) by (simp add: processInBackground_def ps cleanupAll_frame)
  with e(2) show "\<exists>e. throwsAt w (files j) s e
            \<and> ProcessingError (dbRecord (processInBackground w v j)) = Some (thrownMessage e)"
    by blast
qed

lemma processInBackground_cleanup:
  assumes "p \<in> set (tempFiles (processInBackground w v j))"
  shows "CleanupFile p \<in> set (steps (processInBackground w v j))"
    and "startsWith p (TEMP_DIR w) \<and> removable w p \<longrightarrow> p \<notin> files (processInBackground w v j)"
proof -
  show "CleanupFile p \<in> set (steps (processInBackground w v j))"
    using assms by (subst processInBackground_steps) simp
  define j1 where "j1 = (case processSteps w v j of
                  (Inr done, j') \<Rightarrow> j'
                | (Inl e, j') \<Rightarrow> recordFailure w e j')"
  have r: "processInBackground w v j = cleanupAll w (tempFiles j1) j1"
    by (simp add: processInBackground_def j1_def Let_def)
  from assms have "p \<in> set (tempFiles j1)" by (simp add: r cleanupAll_frame)
  then show "startsWith p (TEMP_DIR w) \<and> removable w p \<longrightarrow> p \<notin> files (processInBackground w v j)"
    by (simp add: r cleanupAll_files)
qed

text \<open>The failing step is the last step of the \<open>try\<close> block.\<close>

lemma fatal_step_last:
  assumes "firstFatal w v = Some s"
  shows "last (ProgressUpdate 20 # mediaSteps w @ laterSteps w v) = s"
  using assms
  by (auto simp add: firstFatal_def mediaSteps_def laterSteps_def persistSteps_def
      previewUploadSteps_def thumbnailUploadSteps_def split: if_splits)

lemma pipeline_mediaSteps: "filter pipelineStep (mediaSteps w) = mediaSteps w"
  by (simp add: mediaSteps_def pipelineStep_def)

lemma pipeline_laterSteps:
  "filter pipelineStep (laterSteps w v)
     = (if firstFatal w v = None \<or> firstFatal w v = Some PersistReady then [PersistReady] else [])"
  by (auto simp add: firstFatal_def laterSteps_def persistSteps_def
      previewUploadSteps_def thumbnailUploadSteps_def pipelineStep_def split: if_splits)

lemma processInBackground_pipeline:
  "pipelineSteps (processInBackground w v j)
     = pipelineSteps j @ mediaSteps w
       @ (if firstFatal w v = None \<or> firstFatal w v = Some PersistReady then [PersistReady] else [])"
proof -
  have "filter pipelineStep (map CleanupFile ps) = []" for ps
    by (induction ps) (simp_all add: pipelineStep_def)
  then show ?thesis
    unfolding pipelineSteps_def
    by (subst processInBackground_steps)
       (simp add: pipeline_mediaSteps pipeline_laterSteps pipelineStep_def)
qed



section \<open>Order of the steps\<close>

text \<open>
  C8 (as amended). Within one job the pipeline steps run in the fixed order: the probe
  for a video stream first, then the transcription-audio extraction, then (for video
  sources) the 480p preview transcode, then (for video sources) the thumbnail
  extraction, and finally the persistence of the derived locations with the transition
  to \<open>ready\<close>. The steps taken are always an initial part of that sequence, the whole
  sequence when no fatal step fails; audio-only sources never attempt the preview or
  the thumbnail step.
\<close>

theorem processInBackground_step_order:
  assumes "steps j = []"
  shows "prefix [Probe, AudioExtract] (pipelineSteps (processInBackground w v j))
         \<and> (videoSource w \<longrightarrow>
              prefix (pipelineSteps (processInBackground w v j))
                [Probe, AudioExtract, PreviewTranscode, ThumbnailExtract, PersistReady])
         \<and> (\<not> videoSource w \<longrightarrow>
              prefix (pipelineSteps (processInBackground w v j))
                [Probe, AudioExtract, PersistReady]
              \<and> PreviewTranscode \<notin> set (steps (processInBackground w v j))
              \<and> ThumbnailExtract \<notin> set (steps (processInBackground w v j)))
         \<and> (firstFatal w v = None \<longrightarrow>
              pipelineSteps (processInBackground w v j)
                = (if videoSource w
                   then [Probe, AudioExtract, PreviewTranscode, ThumbnailExtract, PersistReady]
                   else [Probe, AudioExtract, PersistReady]))"
proof -
  let ?r = "processInBackground w v j"
  have p0: "pipelineSteps j = []" using assms by (simp add: pipelineSteps_def)
  have ps: "pipelineSteps ?r = mediaSteps w
       @ (if firstFatal w v = None \<or> firstFatal w v = Some PersistReady then [PersistReady] else [])"
    using processInBackground_pipeline [of w v j] p0 by simp
  have a: "prefix [Probe, AudioExtract] (pipelineSteps ?r)"
    unfolding ps by (simp add: mediaSteps_def)
  have b: "videoSource w \<longrightarrow> prefix (pipelineSteps ?r)
             [Probe, AudioExtract, PreviewTranscode, ThumbnailExtract, PersistReady]"
    unfolding ps by (auto simp add: mediaSteps_def firstFatal_def split: if_splits)
  have c: "\<not> videoSource w \<longrightarrow> prefix (pipelineSteps ?r) [Probe, AudioExtract, PersistReady]"
    unfolding ps by (auto simp add: mediaSteps_def firstFatal_def split: if_splits)
  have mem: "s \<in> set (steps ?r) \<longleftrightarrow> s \<in> set (pipelineSteps ?r)" if "pipelineStep s" for s
    using that by (simp add: pipelineSteps_def)
  have d: "\<not> videoSource w \<longrightarrow> PreviewTranscode \<notin> set (steps ?r) \<and> ThumbnailExtract \<notin> set (steps ?r)"
    unfolding mem [of PreviewTranscode, unfolded pipelineStep_def, simplified]
      mem [of ThumbnailExtract, unfolded pipelineStep_def, simplified] ps
    by (simp add: mediaSteps_def)
  have e: "firstFatal w v = None \<longrightarrow> pipelineSteps ?r
            = (if videoSource w
               then [Probe, AudioExtract, PreviewTranscode, ThumbnailExtract, PersistReady]
               else [Probe, AudioExtract, PersistReady])"
    unfolding ps by (auto simp add: mediaSteps_def firstFatal_def split: if_splits)
  from a b c d e show ?thesis by blast
qed

lemma videoWorld_runs:
  "steps startJob = []" "videoSource videoWorld" "firstFatal videoWorld True = None"
  by (simp_all add: startJob_def videoSource_def videoWorld_def firstFatal_def thumbnailMade_def)

lemma audioWorld_runs:
  "\<not> videoSource (videoWorld\<lparr>probeVideo := Some False\<rparr>)"
  "firstFatal (videoWorld\<lparr>probeVideo := Some False\<rparr>) False = None"
  by (simp_all add: videoSource_def videoWorld_def firstFatal_def thumbnailMade_def)

theorem processInBackground_step_order_witness:
  "steps startJob = [] \<and> videoSource videoWorld \<and> firstFatal videoWorld True = None
   \<and> pipelineSteps (processInBackground videoWorld True startJob)
       = [Probe, AudioExtract, PreviewTranscode, ThumbnailExtract, PersistReady]
   \<and> \<not> videoSource (videoWorld\<lparr>probeVideo := Some False\<rparr>)
   \<and> firstFatal (videoWorld\<lparr>probeVideo := Some False\<rparr>) False = None
   \<and> pipelineSteps (processInBackground (videoWorld\<lparr>probeVideo := Some False\<rparr>) False startJob)
       = [Probe, AudioExtract, PersistReady]
   \<and> PreviewTranscode
        \<notin> set (steps (processInBackground (videoWorld\<lparr>probeVideo := Some False\<rparr>) False startJob))"
  using processInBackground_step_order [OF videoWorld_runs(1), of videoWorld True]
    processInBackground_step_order [OF videoWorld_runs(1),
      of "videoWorld\<lparr>probeVideo := Some False\<rparr>" False]
    videoWorld_runs audioWorld_runs by simp

text \<open>
  C8 as stated fails: for a video source the audio extraction runs before the preview
  transcode, not after it.
\<close>

theorem processInBackground_audio_before_preview:
  "pipelineSteps (processInBackground videoWorld True startJob)
     = [Probe, AudioExtract, PreviewTranscode, ThumbnailExtract, PersistReady]
   \<and> pipelineSteps (processInBackground videoWorld True startJob)
     \<noteq> [Probe, PreviewTranscode, AudioExtract, ThumbnailExtract, PersistReady]"
  by code_simp

section \<open>Failures and cleanup\<close>

lemma processInBackground_probe_fails:
  assumes "probeVideo w = None" and "audioRun w = Succeeds" and "\<not> isl (uploadAudio w)"
    and "readyUpdate w = None"
  shows "Status (dbRecord (processInBackground w v j)) = ''ready''"
    and "pipelineSteps (processInBackground w v j)
           = pipelineSteps j @ [Probe, AudioExtract, PersistReady]"
proof -
  have nv: "\<not> videoSource w" using assms(1) by (simp add: videoSource_def)
  have ff: "firstFatal w v = None" using assms nv by (simp add: firstFatal_def)
  show "Status (dbRecord (processInBackground w v j)) = ''ready''"
    by (rule processInBackground_ready(1) [OF ff])
  show "pipelineSteps (processInBackground w v j)
          = pipelineSteps j @ [Probe, AudioExtract, PersistReady]"
    unfolding processInBackground_pipeline using ff nv by (simp add: mediaSteps_def)
qed

text \<open>
  C9 (as amended). If the thumbnail extraction fails for a video source and no fatal
  step fails, the job ends in status \<open>ready\<close> with no thumbnail URL. A failing
  video-stream probe is not fatal: when the probe fails and the audio extraction, the
  audio upload and the final record update succeed, the job is processed as an
  audio-only source and ends in status \<open>ready\<close>. If a fatal step fails (the audio
  extraction, the preview transcode, an upload or the final record update) and the write
  of the error status succeeds, the job ends in status \<open>error\<close> carrying the message
  of what that step threw (for a codec step its own message, or the error of
  \<open>unlinkSync\<close> when its output file is on disk and cannot be removed), and the
  failing step is followed only by the error write and the cleanup. In every case
  \<open>cleanupTempFile\<close> is called on every recorded temp file, and every recorded temp
  file under the scratch directory that can be unlinked is gone afterwards.
\<close>

theorem processInBackground_failures:
  "(videoSource w \<and> \<not> thumbnailMade w \<and> firstFatal w v = None \<longrightarrow>
      Status (dbRecord (processInBackground w v j)) = ''ready''
      \<and> ThumbnailUrl (dbRecord (processInBackground w v j)) = None)
   \<and> (probeVideo w = None \<and> audioRun w = Succeeds \<and> \<not> isl (uploadAudio w)
        \<and> readyUpdate w = None \<longrightarrow>
      Status (dbRecord (processInBackground w v j)) = ''ready''
      \<and> pipelineSteps (processInBackground w v j)
          = pipelineSteps j @ [Probe, AudioExtract, PersistReady])
   \<and> (\<forall>s. firstFatal w v = Some s \<and> errorUpdate w \<longrightarrow>
         Status (dbRecord (processInBackground w v j)) = ''error''
         \<and> (\<exists>e. throwsAt w (files j) s e
                \<and> ProcessingError (dbRecord (processInBackground w v j)) = Some (thrownMessage e))
         \<and> (\<exists>before. steps (processInBackground w v j)
                = steps j @ before @ [s, PersistError]
                  @ map CleanupFile (tempFiles (processInBackground w v j))))
   \<and> (\<forall>p \<in> set (tempFiles (processInBackground w v j)).
         CleanupFile p \<in> set (steps (processInBackground w v j))
         \<and> (startsWith p (TEMP_DIR w) \<and> removable w p
              \<longrightarrow> p \<notin> files (processInBackground w v j)))"
proof (intro conjI allI impI ballI)
  assume "videoSource w \<and> \<not> thumbnailMade w \<and> firstFatal w v = None"
  then show "Status (dbRecord (processInBackground w v j)) = ''ready''"
    and "ThumbnailUrl (dbRecord (processInBackground w v j)) = None"
    using processInBackground_ready [of w v j] by simp_all
next
  assume "probeVideo w = None \<and> audioRun w = Succeeds \<and> \<not> isl (uploadAudio w)
            \<and> readyUpdate w = None"
  then show "Status (dbRecord (processInBackground w v j)) = ''ready''"
    and "pipelineSteps (processInBackground w v j)
           = pipelineSteps j @ [Probe, AudioExtract, PersistReady]"
    using processInBackground_probe_fails [of w v j] by simp_all
next
  fix s assume f: "firstFatal w v = Some s \<and> errorUpdate w"
  then show "Status (dbRecord (processInBackground w v j)) = ''error''"
    and "\<exists>e. throwsAt w (files j) s e
           \<and> ProcessingError (dbRecord (processInBackground w v j)) = Some (thrownMessage e)"
    using processInBackground_error [of w v s j] by simp_all
  let ?attempt = "ProgressUpdate 20 # mediaSteps w @ laterSteps w v"
  let ?r = "processInBackground w v j"
  let ?X = "map CleanupFile (tempFiles ?r)"
  have "butlast ?attempt @ [last ?attempt] = ?attempt"
    by (rule append_butlast_last_id) simp
  then have be: "butlast ?attempt @ [s] = ?attempt"
    using fatal_step_last [of w v s] f by simp
  have st: "steps ?r = steps j @ ?attempt @ [PersistError] @ ?X"
    using f by (subst processInBackground_steps) simp
  have "steps j @ butlast ?attempt @ [s, PersistError] @ ?X
          = steps j @ (butlast ?attempt @ [s]) @ [PersistError] @ ?X"
    by simp
  also have "\<dots> = steps j @ ?attempt @ [PersistError] @ ?X"
    by (simp only: be)
  also have "\<dots> = steps ?r"
    by (rule st [symmetric])
  finally have "steps ?r = steps j @ butlast ?attempt @ [s, PersistError] @ ?X"
    by (rule sym)
  then show "\<exists>before. steps (processInBackground w v j)
                = steps j @ before @ [s, PersistError]
                  @ map CleanupFile (tempFiles (processInBackground w v j))"
    by blast
next
  fix p assume "p \<in> set (tempFiles (processInBackground w v j))"
  then show "CleanupFile p \<in> set (steps (processInBackground w v j))"
    and "startsWith p (TEMP_DIR w) \<and> removable w p \<Longrightarrow> p \<notin> files (processInBackground w v j)"
    using processInBackground_cleanup [of p w v j] by simp_all
qed

theorem processInBackground_failures_witness:
  "videoSource (videoWorld\<lparr>thumbnailRun := Fails True\<rparr>)
   \<and> \<not> thumbnailMade (videoWorld\<lparr>thumbnailRun := Fails True\<rparr>)
   \<and> firstFatal (videoWorld\<lparr>thumbnailRun := Fails True\<rparr>) True = None
   \<and> Status (dbRecord (processInBackground (videoWorld\<lparr>thumbnailRun := Fails True\<rparr>)
                True startJob)) = ''ready''
   \<and> ThumbnailUrl (dbRecord (processInBackground (videoWorld\<lparr>thumbnailRun := Fails True\<rparr>)
                True startJob)) = None
   \<and> probeVideo (videoWorld\<lparr>probeVideo := None\<rparr>) = None
   \<and> audioRun (videoWorld\<lparr>probeVideo := None\<rparr>) = Succeeds
   \<and> \<not> isl (uploadAudio (videoWorld\<lparr>probeVideo := None\<rparr>))
   \<and> readyUpdate (videoWorld\<lparr>probeVideo := None\<rparr>) = None
   \<and> Status (dbRecord (processInBackground (videoWorld\<lparr>probeVideo := None\<rparr>)
                True startJob)) = ''ready''
   \<and> pipelineSteps (processInBackground (videoWorld\<lparr>probeVideo := None\<rparr>) True startJob)
       = [Probe, AudioExtract, PersistReady]
   \<and> firstFatal (videoWorld\<lparr>previewRun := Fails True\<rparr>) True = Some PreviewTranscode
   \<and> errorUpdate (videoWorld\<lparr>previewRun := Fails True\<rparr>)
   \<and> Status (dbRecord (processInBackground (videoWorld\<lparr>previewRun := Fails True\<rparr>)
                True startJob)) = ''error''
   \<and> ProcessingError (dbRecord (processInBackground (videoWorld\<lparr>previewRun := Fails True\<rparr>)
                True startJob)) = Some ''Failed to convert to 480p''
   \<and> firstFatal (videoWorld\<lparr>previewRun := Fails True, removable := keepsPreview\<rparr>) True
       = Some PreviewTranscode
   \<and> errorUpdate (videoWorld\<lparr>previewRun := Fails True, removable := keepsPreview\<rparr>)
   \<and> ProcessingError (dbRecord (processInBackground
          (videoWorld\<lparr>previewRun := Fails True, removable := keepsPreview\<rparr>) True startJob))
       = Some ''EPERM: operation not permitted, unlink''
   \<and> ''/tmp/subzcreator/original.mp4''
        \<in> set (tempFiles (processInBackground (videoWorld\<lparr>previewRun := Fails True\<rparr>)
                  True startJob))
   \<and> ''/tmp/subzcreator/original.mp4''
        \<notin> files (processInBackground (videoWorld\<lparr>previewRun := Fails True\<rparr>) True startJob)"
proof -
  let ?w1 = "videoWorld\<lparr>thumbnailRun := Fails True\<rparr>"
  let ?w2 = "videoWorld\<lparr>previewRun := Fails True\<rparr>"
  let ?w3 = "videoWorld\<lparr>probeVideo := None\<rparr>"
  let ?w4 = "videoWorld\<lparr>previewRun := Fails True, removable := keepsPreview\<rparr>"
  let ?p = "''/tmp/subzcreator/original.mp4''"
  have h1: "videoSource ?w1 \<and> \<not> thumbnailMade ?w1 \<and> firstFatal ?w1 True = None"
    by (simp add: videoSource_def thumbnailMade_def firstFatal_def videoWorld_def)
  have h2: "firstFatal ?w2 True = Some PreviewTranscode \<and> errorUpdate ?w2"
    by (simp add: videoSource_def firstFatal_def videoWorld_def)
  have h3: "?p \<in> set (tempFiles (processInBackground ?w2 True startJob))"
    by code_simp
  have h4: "startsWith ?p (TEMP_DIR ?w2) \<and> removable ?w2 ?p"
    by (simp add: startsWith_def videoWorld_def allRemovable_def)
  have h5: "probeVideo ?w3 = None \<and> audioRun ?w3 = Succeeds \<and> \<not> isl (uploadAudio ?w3)
              \<and> readyUpdate ?w3 = None"
    by (simp add: videoWorld_def)
  have h6: "firstFatal ?w4 True = Some PreviewTranscode \<and> errorUpdate ?w4"
    by (simp add: videoSource_def firstFatal_def videoWorld_def)
  have p0: "pipelineSteps startJob = []"
    by (simp add: pipelineSteps_def startJob_def)
  have msg: "throwsAt ?w2 (files startJob) PreviewTranscode e
               \<Longrightarrow> thrownMessage e = ''Failed to convert to 480p''" for e
    by (simp add: throwsAt_def codecThrows_def thrownMessage_def videoWorld_def allRemovable_def)
  have msg4: "throwsAt ?w4 (files startJob) PreviewTranscode e
               \<Longrightarrow> thrownMessage e = ''EPERM: operation not permitted, unlink''" for e
    by (simp add: throwsAt_def codecThrows_def thrownMessage_def videoWorld_def keepsPreview_def)
  note t1 = processInBackground_failures [of ?w1 True startJob]
  note t2 = processInBackground_failures [of ?w2 True startJob]
  note t3 = processInBackground_failures [of ?w3 True startJob]
  note t4 = processInBackground_failures [of ?w4 True startJob]
  from t1 h1 have a: "Status (dbRecord (processInBackground ?w1 True startJob)) = ''ready''"
    "ThumbnailUrl (dbRecord (processInBackground ?w1 True startJob)) = None"
    by blast+
  from t2 h2 have b: "Status (dbRecord (processInBackground ?w2 True startJob)) = ''error''"
    by blast
  from t2 h2 obtain e where "throwsAt ?w2 (files startJob) PreviewTranscode e"
    "ProcessingError (dbRecord (processInBackground ?w2 True startJob)) = Some (thrownMessage e)"
    by blast
  with msg have c: "ProcessingError (dbRecord (processInBackground ?w2 True startJob))
                      = Some ''Failed to convert to 480p''" by simp
  from t2 h3 h4 have d: "?p \<notin> files (processInBackground ?w2 True startJob)"
    by blast
  from t3 h5 have f: "Status (dbRecord (processInBackground ?w3 True startJob)) = ''ready''"
    "pipelineSteps (processInBackground ?w3 True startJob)
       = pipelineSteps startJob @ [Probe, AudioExtract, PersistReady]"
    by blast+
  from t4 h6 obtain e4 where "throwsAt ?w4 (files startJob) PreviewTranscode e4"
    "ProcessingError (dbRecord (processInBackground ?w4 True startJob)) = Some (thrownMessage e4)"
    by blast
  with msg4 have g: "ProcessingError (dbRecord (processInBackground ?w4 True startJob))
                      = Some ''EPERM: operation not permitted, unlink''" by simp
  from h1 h2 h3 h5 h6 a b c d f [unfolded p0] g show ?thesis by simp
qed

text \<open>
  C9 as stated fails. When the video-stream probe fails the job goes on and ends in
  status \<open>ready\<close>. When the final record update fails and the write of the error status
  fails too, the job stays in status \<open>processing\<close>. A recorded temp file that cannot be
  unlinked is still on disk after the cleanup.
\<close>

theorem processInBackground_failures_counterexample:
  "Status (dbRecord (processInBackground (videoWorld\<lparr>probeVideo := None\<rparr>) True startJob))
     = ''ready''
   \<and> Status (dbRecord (processInBackground
        (videoWorld\<lparr>readyUpdate := Some (JsError ''fetch failed''), errorUpdate := False\<rparr>)
        True startJob)) = ''processing''
   \<and> ''/tmp/subzcreator/original.mp4''
        \<in> set (tempFiles (processInBackground (videoWorld\<lparr>removable := keepsOriginal\<rparr>)
                  True startJob))
   \<and> ''/tmp/subzcreator/original.mp4''
        \<in> files (processInBackground (videoWorld\<lparr>removable := keepsOriginal\<rparr>) True startJob)"
  by code_simp


end
